theory Spec2Isabelle
  imports Main "HOL-Library.AList" "HOL-Library.Sublist"
begin

section \<open>JSON values\<close>

text \<open>
  The values that \<^verbatim>\<open>json.load\<close> produces and that the detectors store in a feature's
  detail bag: \<^verbatim>\<open>None\<close>, booleans, unbounded integers, floats (kept as an opaque
  mantissa and exponent, never computed with), strings, lists, and dictionaries as
  association lists in insertion order.
\<close>

datatype jval =
    JNull
  | JBool bool
  | JInt int
  | JFloat int int
  | JStr string
  | JList "jval list"
  | JObj "(string \<times> jval) list"

section \<open>Tier classifier (scoring.py)\<close>

text \<open>
  \<^verbatim>\<open>classify_screen_tier(feature_counts: dict[str, int]) -> int\<close> only reads the
  dictionary with \<^verbatim>\<open>feature_counts.get(ind, 0)\<close>, so the dictionary is a partial map
  from labels to Python integers and a missing key reads as 0.
\<close>

type_synonym feature_counts = "string \<rightharpoonup> int"

definition get_count :: "feature_counts \<Rightarrow> string \<Rightarrow> int" where
  "get_count feature_counts ind = (case feature_counts ind of None \<Rightarrow> 0 | Some n \<Rightarrow> n)"

definition t4_indicators :: "string list" where
  "t4_indicators =
     [''camera'', ''scanner'', ''map'', ''video'', ''realtime'', ''animation'', ''device_api'']"

definition t3_indicators :: "string list" where
  "t3_indicators =
     [''charts'', ''timers'', ''builders'', ''drag_drop'', ''swipe'', ''tabs_complex'']"

definition t2_indicators :: "string list" where
  "t2_indicators =
     [''forms'', ''lists'', ''cards'', ''crud'', ''detail_view'', ''modals'', ''tabs'']"

text \<open>\<^verbatim>\<open>any(feature_counts.get(ind, 0) > 0 for ind in inds)\<close>\<close>

definition any_positive :: "feature_counts \<Rightarrow> string list \<Rightarrow> bool" where
  "any_positive feature_counts inds = list_ex (\<lambda>ind. get_count feature_counts ind > 0) inds"

definition classify_screen_tier :: "feature_counts \<Rightarrow> int" where
  "classify_screen_tier feature_counts =
     (if any_positive feature_counts t4_indicators then 4
      else if any_positive feature_counts t3_indicators then 3
      else if any_positive feature_counts t2_indicators then 2
      else 1)"

text \<open>
  The decision order in the words of the specification (section 4.3), kept apart from the
  source's function so that the two can be compared: its tier-3 set has five labels.
\<close>

definition spec_t3_labels :: "string list" where
  "spec_t3_labels = [''charts'', ''timers'', ''builders'', ''drag_drop'', ''swipe'']"

definition spec_classify_tier :: "feature_counts \<Rightarrow> int" where
  "spec_classify_tier feature_counts =
     (if any_positive feature_counts
           [''camera'', ''scanner'', ''map'', ''video'', ''realtime'', ''animation'', ''device_api'']
      then 4
      else if any_positive feature_counts spec_t3_labels then 3
      else if any_positive feature_counts
           [''forms'', ''lists'', ''cards'', ''crud'', ''detail_view'', ''modals'', ''tabs'']
      then 2
      else 1)"


section \<open>Features and completion statistics (state.py, scoring.py)\<close>

text \<open>
  A feature is the dictionary built by \<^verbatim>\<open>make_feature\<close>: eleven keys, all present, with
  the types of that function's signature. The record has one field per key (the key
  \<^verbatim>\<open>id\<close> is the field \<open>fid\<close>). With every key present, \<^verbatim>\<open>f.get("tier", 2)\<close>,
  \<^verbatim>\<open>f.get("status", "open")\<close> and \<^verbatim>\<open>f.get("detail", {})\<close> read the field, and
  \<^verbatim>\<open>f["tier"]\<close> never raises.
\<close>

record feature =
  fid :: string
  detector :: string
  screen_id :: string
  name :: string
  tier :: int
  category :: string
  summary :: string
  detail :: jval
  status :: string
  first_seen :: string
  last_seen :: string

text \<open>One entry of \<^verbatim>\<open>by_tier\<close>: \<^verbatim>\<open>{"total": N, "done": N}\<close>.\<close>

record tier_stats =
  ts_total :: int
  ts_done :: int

text \<open>
  The two percentages are Python floats. They are kept as the expression the source
  evaluates, not as a number: \<open>Float_zero\<close> is the literal \<^verbatim>\<open>0.0\<close> and
  \<open>Round1_pct a b\<close> is \<^verbatim>\<open>round((a / b) * 100, 1)\<close> on the integers \<open>a\<close> and \<open>b\<close>.
\<close>

datatype pyfloat = Float_zero | Round1_pct int int

text \<open>The dictionary returned by \<^verbatim>\<open>compute_completion\<close> (the key \<^verbatim>\<open>open\<close> is \<open>stats_open\<close>).\<close>

record stats =
  stats_total :: int
  stats_implemented :: int
  stats_deferred :: int
  stats_out_of_scope :: int
  stats_open :: int
  stats_pct :: pyfloat
  stats_by_tier :: "(int \<times> tier_stats) list"
  stats_effort_score :: pyfloat

definition TIER_WEIGHTS :: "(int \<times> int) list" where
  "TIER_WEIGHTS = [(1, 1), (2, 2), (3, 4), (4, 8)]"

text \<open>\<^verbatim>\<open>TIER_WEIGHTS.get(tier, 2)\<close>\<close>

definition tier_weight :: "int \<Rightarrow> int" where
  "tier_weight t = (case map_of TIER_WEIGHTS t of Some w \<Rightarrow> w | None \<Rightarrow> 2)"

text \<open>
  \<^verbatim>\<open>d.setdefault(k, default)\<close> on an insertion-ordered dictionary: a missing key is
  appended with the default, a present key leaves the dictionary as it is.
\<close>

definition setdefault :: "'k \<Rightarrow> 'v \<Rightarrow> ('k \<times> 'v) list \<Rightarrow> ('k \<times> 'v) list" where
  "setdefault k d al = (case map_of al k of Some v \<Rightarrow> al | None \<Rightarrow> al @ [(k, d)])"

text \<open>The local variables of the loop of \<^verbatim>\<open>compute_completion\<close>.\<close>

record counters =
  c_by_tier :: "(int \<times> tier_stats) list"
  c_total :: int
  c_implemented :: int
  c_deferred :: int
  c_out_of_scope :: int

text \<open>
  One iteration of the loop. \<^verbatim>\<open>ts\<close> is the entry of \<^verbatim>\<open>by_tier\<close> itself, so
  \<^verbatim>\<open>ts["total"] += 1\<close> and \<^verbatim>\<open>ts["done"] += 1\<close> change that entry in place
  (\<open>AList.map_entry\<close>).
\<close>

definition count_feature :: "feature \<Rightarrow> counters \<Rightarrow> counters" where
  "count_feature f c =
     (let by_tier1 = setdefault (tier f) \<lparr>ts_total = 0, ts_done = 0\<rparr> (c_by_tier c);
          by_tier2 = AList.map_entry (tier f) (\<lambda>ts. ts\<lparr>ts_total := ts_total ts + 1\<rparr>) by_tier1;
          c1 = c\<lparr>c_by_tier := by_tier2, c_total := c_total c + 1\<rparr>
      in if status f = ''implemented'' then
           c1\<lparr>c_implemented := c_implemented c1 + 1,
              c_by_tier :=
                AList.map_entry (tier f) (\<lambda>ts. ts\<lparr>ts_done := ts_done ts + 1\<rparr>) by_tier2\<rparr>
         else if status f = ''deferred'' then c1\<lparr>c_deferred := c_deferred c1 + 1\<rparr>
         else if status f = ''out_of_scope'' then c1\<lparr>c_out_of_scope := c_out_of_scope c1 + 1\<rparr>
         else c1)"

fun count_features :: "feature list \<Rightarrow> counters \<Rightarrow> counters" where
  "count_features [] c = c"
| "count_features (f # fs) c = count_features fs (count_feature f c)"

definition compute_completion :: "feature list \<Rightarrow> stats" where
  "compute_completion features =
     (let c = count_features features
                \<lparr>c_by_tier = [], c_total = 0, c_implemented = 0, c_deferred = 0,
                 c_out_of_scope = 0\<rparr>;
          open_count = c_total c - c_implemented c - c_deferred c - c_out_of_scope c;
          pct = (if c_total c > 0 then Round1_pct (c_implemented c) (c_total c) else Float_zero);
          total_effort = sum_list (map (\<lambda>(t, ts). tier_weight t * ts_total ts) (c_by_tier c));
          done_effort = sum_list (map (\<lambda>(t, ts). tier_weight t * ts_done ts) (c_by_tier c));
          effort_score = (if total_effort > 0 then Round1_pct done_effort total_effort
                          else Float_zero)
      in \<lparr>stats_total = c_total c, stats_implemented = c_implemented c,
          stats_deferred = c_deferred c, stats_out_of_scope = c_out_of_scope c,
          stats_open = open_count, stats_pct = pct, stats_by_tier = c_by_tier c,
          stats_effort_score = effort_score\<rparr>)"

text \<open>
  Quantities of a feature list in which the statistics are stated: the number of features
  with a given status, and the effort (sum of tier weights) of all features and of the
  implemented ones.
\<close>

definition count_status :: "string \<Rightarrow> feature list \<Rightarrow> int" where
  "count_status s fs = int (length (filter (\<lambda>f. status f = s) fs))"

definition total_effort_of :: "feature list \<Rightarrow> int" where
  "total_effort_of fs = sum_list (map (\<lambda>f. tier_weight (tier f)) fs)"

definition done_effort_of :: "feature list \<Rightarrow> int" where
  "done_effort_of fs =
     sum_list (map (\<lambda>f. tier_weight (tier f)) (filter (\<lambda>f. status f = ''implemented'') fs))"

definition wsum :: "(int \<Rightarrow> tier_stats \<Rightarrow> int) \<Rightarrow> (int \<times> tier_stats) list \<Rightarrow> int" where
  "wsum h al = sum_list (map (\<lambda>(t, ts). h t ts) al)"

text \<open>A feature as \<^verbatim>\<open>make_feature\<close> builds it at time \<open>now\<close>.\<close>

definition make_feature ::
  "string \<Rightarrow> string \<Rightarrow> string \<Rightarrow> string \<Rightarrow> int \<Rightarrow> string \<Rightarrow> string \<Rightarrow> jval option \<Rightarrow> feature"
where
  "make_feature now detector' screen_id' name' tier' category' summary' detail' =
     \<lparr>fid = (if name' \<noteq> [] then detector' @ ''::'' @ screen_id' @ ''::'' @ name'
             else detector' @ ''::'' @ screen_id'),
      detector = detector', screen_id = screen_id', name = name', tier = tier',
      category = category', summary = summary',
      detail = (case detail' of None \<Rightarrow> JObj [] | Some (JObj []) \<Rightarrow> JObj [] | Some d \<Rightarrow> d),
      status = ''open'', first_seen = now, last_seen = now\<rparr>"

text \<open>A sample feature for concrete evaluations: built by \<^verbatim>\<open>make_feature\<close>, then given a status.\<close>

definition ex_feature :: "string \<Rightarrow> int \<Rightarrow> string \<Rightarrow> feature" where
  "ex_feature i t s =
     (make_feature ''2024-01-01T00:00:00+00:00'' ''screen'' i ''Home'' t ''screen'' ''Screen: Home''
        None)\<lparr>status := s\<rparr>"

section \<open>Reconciliation store (state.py)\<close>

text \<open>
  The persisted state dictionary of \<^verbatim>\<open>_empty_state\<close>. \<^verbatim>\<open>features\<close> is a dictionary from
  feature id to feature; Python dictionaries keep insertion order and
  \<^verbatim>\<open>resolve_feature\<close> returns ids in that order, so it is an association list.
  \<^verbatim>\<open>stats\<close> is \<^verbatim>\<open>{}\<close> (\<open>None\<close>) until the first recomputation. Dictionaries are
  values here: two entries never share one mutable object.
\<close>

record state =
  version :: int
  created :: string
  last_scan :: "string option"
  scan_count :: int
  source_file :: "string option"
  features :: "(string \<times> feature) list"
  components :: "(string \<times> jval) list"
  stats :: "stats option"

definition CURRENT_VERSION :: int where
  "CURRENT_VERSION = 1"

definition empty_state :: "string \<Rightarrow> state" where
  "empty_state now =
     \<lparr>version = CURRENT_VERSION, created = now, last_scan = None, scan_count = 0,
      source_file = None, features = [], components = [], stats = None\<rparr>"

definition recompute_stats :: "state \<Rightarrow> state" where
  "recompute_stats st = st\<lparr>stats := Some (compute_completion (map snd (features st)))\<rparr>"

text \<open>The local variables of the first loop of \<^verbatim>\<open>merge_scan\<close>.\<close>

record merge_vars =
  existing :: "(string \<times> feature) list"
  current_ids :: "string set"
  new_count :: int

text \<open>
  One iteration of \<^verbatim>\<open>for f in features\<close>. A known id has its entry changed in place
  (four keys are assigned); an unknown id is stored at the end of the dictionary.
\<close>

definition merge_feature :: "string \<Rightarrow> feature \<Rightarrow> merge_vars \<Rightarrow> merge_vars" where
  "merge_feature now f v =
     (let v1 = v\<lparr>current_ids := insert (fid f) (current_ids v)\<rparr>
      in if fid f \<in> fst ` set (existing v) then
           v1\<lparr>existing :=
                AList.map_entry (fid f)
                  (\<lambda>old. old\<lparr>last_seen := now, tier := tier f, summary := summary f,
                             detail := detail f\<rparr>)
                  (existing v)\<rparr>
         else v1\<lparr>existing := AList.update (fid f) f (existing v),
                 new_count := new_count v + 1\<rparr>)"

fun merge_features :: "string \<Rightarrow> feature list \<Rightarrow> merge_vars \<Rightarrow> merge_vars" where
  "merge_features now [] v = v"
| "merge_features now (f # fs) v = merge_features now fs (merge_feature now f v)"

text \<open>
  The second loop of \<^verbatim>\<open>merge_scan\<close>, over \<^verbatim>\<open>existing.items()\<close>: it returns the entries
  after the loop and the counter \<^verbatim>\<open>removed\<close>.
\<close>

fun remove_missing ::
  "string set \<Rightarrow> (string \<times> feature) list \<Rightarrow> int \<Rightarrow> (string \<times> feature) list \<times> int"
where
  "remove_missing ids [] removed = ([], removed)"
| "remove_missing ids ((k, old) # rest) removed =
     (if k \<notin> ids \<and> status old = ''open''
      then (let (rest', r) = remove_missing ids rest (removed + 1)
            in ((k, old\<lparr>status := ''removed_from_design''\<rparr>) # rest', r))
      else (let (rest', r) = remove_missing ids rest removed
            in ((k, old) # rest', r)))"

text \<open>The returned diff summary: \<^verbatim>\<open>{"new": ..., "removed": ..., "total": ...}\<close>.\<close>

record diff =
  diff_new :: int
  diff_removed :: int
  diff_total :: int

text \<open>
  \<^verbatim>\<open>merge_scan(state, features, source_file)\<close>. The clock reading \<^verbatim>\<open>_now()\<close>, taken once
  at the start, is the parameter \<open>now\<close>; the mutated state is returned with the diff.
\<close>

definition merge_scan :: "string \<Rightarrow> state \<Rightarrow> feature list \<Rightarrow> string \<Rightarrow> state \<times> diff" where
  "merge_scan now st fresh source_file' =
     (let st1 = st\<lparr>last_scan := Some now, scan_count := scan_count st + 1\<rparr>;
          st2 = (if source_file' \<noteq> [] then st1\<lparr>source_file := Some source_file'\<rparr> else st1);
          v = merge_features now fresh
                \<lparr>existing = features st2, current_ids = {}, new_count = 0\<rparr>;
          (existing', removed) = remove_missing (current_ids v) (existing v) 0;
          st3 = recompute_stats (st2\<lparr>features := existing'\<rparr>)
      in (st3, \<lparr>diff_new = new_count v, diff_removed = removed,
                diff_total = int (card (current_ids v))\<rparr>))"

text \<open>Python's \<^verbatim>\<open>pattern in fid\<close> on strings: \<open>pattern\<close> occurs in \<open>fid\<close> as a substring.\<close>

fun py_in :: "string \<Rightarrow> string \<Rightarrow> bool" where
  "py_in p [] = (p = [])"
| "py_in p (c # cs) = (prefix p (c # cs) \<or> py_in p cs)"

text \<open>
  The loop of \<^verbatim>\<open>resolve_feature\<close> over \<^verbatim>\<open>state["features"].items()\<close>: it returns the
  entries after the loop and the list \<^verbatim>\<open>resolved\<close>.
\<close>

fun resolve_loop ::
  "string \<Rightarrow> string \<Rightarrow> (string \<times> feature) list \<Rightarrow> string list
     \<Rightarrow> (string \<times> feature) list \<times> string list"
where
  "resolve_loop pattern status' [] resolved = ([], resolved)"
| "resolve_loop pattern status' ((k, f) # rest) resolved =
     (if status f \<noteq> ''open''
      then (let (rest', r) = resolve_loop pattern status' rest resolved
            in ((k, f) # rest', r))
      else if k = pattern \<or> screen_id f = pattern \<or> py_in pattern k
      then (let (rest', r) = resolve_loop pattern status' rest (resolved @ [k])
            in ((k, f\<lparr>status := status'\<rparr>) # rest', r))
      else (let (rest', r) = resolve_loop pattern status' rest resolved
            in ((k, f) # rest', r)))"

definition resolve_feature :: "state \<Rightarrow> string \<Rightarrow> string \<Rightarrow> state \<times> string list" where
  "resolve_feature st pattern status' =
     (let (features', resolved) = resolve_loop pattern status' (features st) []
      in (recompute_stats (st\<lparr>features := features'\<rparr>), resolved))"

text \<open>
  Notions in which the theorems on the store are stated: what the removal loop does to
  one entry, the update of the four rescanned keys, the (id, status) view of the feature
  dictionary, and the match condition of \<^verbatim>\<open>resolve_feature\<close> with the substring test
  written out.
\<close>

definition mark_removed :: "string set \<Rightarrow> string \<times> feature \<Rightarrow> string \<times> feature" where
  "mark_removed ids e =
     (if fst e \<notin> ids \<and> status (snd e) = ''open''
      then (fst e, (snd e)\<lparr>status := ''removed_from_design''\<rparr>) else e)"

definition rescan :: "string \<Rightarrow> feature \<Rightarrow> feature \<Rightarrow> feature" where
  "rescan now g old =
     old\<lparr>last_seen := now, tier := tier g, summary := summary g, detail := detail g\<rparr>"

definition status_view :: "(string \<times> feature) list \<Rightarrow> (string \<times> string) list" where
  "status_view al = map (\<lambda>e. (fst e, status (snd e))) al"

definition resolve_matches :: "string \<Rightarrow> string \<times> feature \<Rightarrow> bool" where
  "resolve_matches pattern e \<longleftrightarrow>
     status (snd e) = ''open''
     \<and> (fst e = pattern \<or> screen_id (snd e) = pattern
         \<or> (\<exists>ps ss. fst e = ps @ pattern @ ss))"

text \<open>
  A sample store for concrete evaluations: two open features of screen \<^verbatim>\<open>s1\<close> and one
  implemented feature of screen \<^verbatim>\<open>s2\<close>.
\<close>

definition ex_home :: feature where
  "ex_home = make_feature ''2024-01-01T00:00:00+00:00'' ''screen'' ''s1'' ''Home'' 1 ''screen''
     ''Screen: Home (mobile, T1)'' None"

definition ex_login :: feature where
  "ex_login = make_feature ''2024-01-01T00:00:00+00:00'' ''form'' ''s1'' ''Login'' 2 ''form''
     ''Form with 2 inputs'' None"

definition ex_settings :: feature where
  "ex_settings =
     (make_feature ''2024-01-01T00:00:00+00:00'' ''screen'' ''s2'' ''Settings'' 1 ''screen''
        ''Screen: Settings (mobile, T1)'' None)\<lparr>status := ''implemented''\<rparr>"

definition ex_state :: state where
  "ex_state =
     (empty_state ''2024-01-01T00:00:00+00:00'')
       \<lparr>features := [(fid ex_home, ex_home), (fid ex_login, ex_login),
                     (fid ex_settings, ex_settings)]\<rparr>"

text \<open>The implemented Settings screen as a later scan detects it again: tier 3, new summary.\<close>

definition ex_settings_rescanned :: feature where
  "ex_settings_rescanned =
     make_feature ''2024-02-02T00:00:00+00:00'' ''screen'' ''s2'' ''Settings'' 3 ''screen''
        ''Screen: Settings (mobile, T3)'' (Some (JObj [(''platform'', JStr ''mobile'')]))"

text \<open>A screen that the sample store does not know yet.\<close>

definition ex_scan :: feature where
  "ex_scan = make_feature ''2024-02-02T00:00:00+00:00'' ''screen'' ''s3'' ''Scan'' 4 ''screen''
     ''Screen: Scan (mobile, T4)'' None"

text \<open>The removal loop on the (id, status) view of the dictionary.\<close>

definition mark_view :: "string set \<Rightarrow> string \<times> string \<Rightarrow> string \<times> string" where
  "mark_view ids p =
     (if fst p \<notin> ids \<and> snd p = ''open'' then (fst p, ''removed_from_design'') else p)"

section \<open>Tree model (pen\_parser.py)\<close>

text \<open>
  The dataclass \<^verbatim>\<open>PenNode\<close>. The constructor checks no types, so \<^verbatim>\<open>id\<close>, \<^verbatim>\<open>type\<close>,
  \<^verbatim>\<open>name\<close> and \<^verbatim>\<open>reusable\<close> hold whatever JSON value the input gives them.
\<close>

datatype pen_node =
  PenNode (node_id: jval) (node_type: jval) (node_name: jval) (children: "pen_node list")
    (properties: "(string \<times> jval) list") (reusable: jval)

text \<open>\<^verbatim>\<open>data.get(k, default)\<close> on a dictionary.\<close>

definition dict_get :: "(string \<times> jval) list \<Rightarrow> string \<Rightarrow> jval \<Rightarrow> jval" where
  "dict_get data k d = (case map_of data k of Some v \<Rightarrow> v | None \<Rightarrow> d)"

definition skip_keys :: "string set" where
  "skip_keys = {''id'', ''type'', ''name'', ''children'', ''reusable''}"

text \<open>
  \<^verbatim>\<open>_parse_node\<close> calls itself on the dictionaries among the elements of a list-valued
  \<^verbatim>\<open>children\<close>; each is smaller than the dictionary that holds it, which is why the
  recursion ends.
\<close>

lemma size_map_of:
  "map_of al k = Some v \<Longrightarrow> size v < size (JObj al)"
  by (induction al) (auto split: if_splits)

lemma size_in_list: "x \<in> set xs \<Longrightarrow> size x < size (JList xs)"
  by (induction xs) auto

lemma child_smaller:
  "dict_get data k (JList []) = JList cs \<Longrightarrow> JObj d \<in> set cs \<Longrightarrow>
   size (JObj d) < size (JObj data)"
proof -
  assume g: "dict_get data k (JList []) = JList cs" and m: "JObj d \<in> set cs"
  from m have "cs \<noteq> []" by auto
  with g have "map_of data k = Some (JList cs)"
    by (auto simp: dict_get_def split: option.splits)
  from size_map_of[OF this] size_in_list[OF m] show ?thesis by simp
qed

lemma child_smaller':
  "JList cs = dict_get data k (JList []) \<Longrightarrow> JObj d \<in> set cs \<Longrightarrow>
   size_list (size_prod (\<lambda>x. 0) size) d < size_list (size_prod (\<lambda>x. 0) size) data"
  using child_smaller[of data k cs d] by simp

text \<open>
  \<^verbatim>\<open>_parse_node(data)\<close>: \<^verbatim>\<open>isinstance(raw_children, list)\<close> and
  \<^verbatim>\<open>isinstance(child_data, dict)\<close> are the two case distinctions.
\<close>

function parse_node :: "(string \<times> jval) list \<Rightarrow> pen_node" where
  "parse_node data =
     (let raw_children = dict_get data ''children'' (JList []);
          children' =
            (case raw_children of
               JList cs \<Rightarrow>
                 concat (map (\<lambda>child_data.
                                case child_data of JObj d \<Rightarrow> [parse_node d] | _ \<Rightarrow> []) cs)
             | _ \<Rightarrow> []);
          node_id' = dict_get data ''id'' (JStr []);
          node_type' = dict_get data ''type'' (JStr ''frame'');
          name' = dict_get data ''name'' (JStr []);
          reusable' = dict_get data ''reusable'' (JBool False);
          properties' = filter (\<lambda>(k, v). k \<notin> skip_keys) data
      in PenNode node_id' node_type' name' children' properties' reusable')"
  by pat_completeness auto
termination
  by (relation "measure (\<lambda>data. size (JObj data))") (auto dest: child_smaller')

declare parse_node.simps [simp del]





text \<open>
  A sample input: a root without type and name and with an unknown key, whose children
  are a frame with a non-list \<^verbatim>\<open>children\<close>, two stray non-objects and a text node.
\<close>

definition ex_tree :: "(string \<times> jval) list" where
  "ex_tree =
     [(''id'', JStr ''root''), (''theme'', JStr ''dark''),
      (''children'',
         JList [JObj [(''name'', JStr ''Settings''), (''width'', JInt 390),
                      (''children'', JStr ''none'')],
                JInt 5,
                JStr ''stray'',
                JObj [(''id'', JStr ''t1''), (''type'', JStr ''text''),
                      (''content'', JStr ''Hello'')]])]"

section \<open>Codebase matcher: strings (codebase\_matcher.py)\<close>

text \<open>
  A Python \<^verbatim>\<open>str\<close> is a sequence of code points. The model has the code points below
  256 (one \<open>char\<close> each, \<open>py_ord\<close> its number), which hold every character the two
  functions below distinguish; on them \<^verbatim>\<open>str.isspace\<close>, the line boundaries of
  \<^verbatim>\<open>str.splitlines\<close> and \<^verbatim>\<open>str.lower\<close> are as follows.
\<close>

definition py_ord :: "char \<Rightarrow> nat" where
  "py_ord c = of_char c"

definition is_space :: "char \<Rightarrow> bool" where
  "is_space c \<longleftrightarrow> py_ord c \<in> {9, 10, 11, 12, 13, 28, 29, 30, 31, 32, 133, 160}"

definition is_linebreak :: "char \<Rightarrow> bool" where
  "is_linebreak c \<longleftrightarrow> py_ord c \<in> {10, 11, 12, 13, 28, 29, 30, 133}"

definition is_upper :: "char \<Rightarrow> bool" where
  "is_upper c \<longleftrightarrow>
     (65 \<le> py_ord c \<and> py_ord c \<le> 90) \<or> (192 \<le> py_ord c \<and> py_ord c \<le> 214)
     \<or> (216 \<le> py_ord c \<and> py_ord c \<le> 222)"

definition lower_char :: "char \<Rightarrow> char" where
  "lower_char c = (if is_upper c then char_of (py_ord c + 32) else c)"

text \<open>\<^verbatim>\<open>s.lower()\<close>\<close>

definition lower :: "string \<Rightarrow> string" where
  "lower s = map lower_char s"

text \<open>\<^verbatim>\<open>s.strip()\<close> and \<^verbatim>\<open>s.strip(chars)\<close>: the characters to drop are given by a predicate.\<close>

definition strip_chars :: "(char \<Rightarrow> bool) \<Rightarrow> string \<Rightarrow> string" where
  "strip_chars P s = rev (dropWhile P (rev (dropWhile P s)))"

definition strip :: "string \<Rightarrow> string" where
  "strip s = strip_chars is_space s"

text \<open>
  \<^verbatim>\<open>s.splitlines()\<close>: \<open>cur\<close> is the line read so far. A line boundary ends the line (a
  carriage return followed by a line feed is one boundary); what follows the last
  boundary is a line only if it is not empty.
\<close>

fun splitlines_from :: "string \<Rightarrow> string \<Rightarrow> string list" where
  "splitlines_from cur [] = (if cur = [] then [] else [cur])"
| "splitlines_from cur (c # cs) =
     (if is_linebreak c then
        (case cs of
           [] \<Rightarrow> [cur]
         | c2 # cs2 \<Rightarrow>
             if py_ord c = 13 \<and> py_ord c2 = 10 then cur # splitlines_from [] cs2
             else cur # splitlines_from [] cs)
      else splitlines_from (cur @ [c]) cs)"

definition splitlines :: "string \<Rightarrow> string list" where
  "splitlines s = splitlines_from [] s"

text \<open>
  \<^verbatim>\<open>_is_stub_page(page_path)\<close>. The argument is what \<^verbatim>\<open>read_text\<close> gives: \<open>None\<close> when
  it raises OSError, the content otherwise.
\<close>

definition is_stub_page :: "string option \<Rightarrow> bool" where
  "is_stub_page read_result =
     (case read_result of
        None \<Rightarrow> True
      | Some content \<Rightarrow>
          (let lines = splitlines (strip content) in
           if length lines < 10 then True
           else if py_in ''coming soon'' (lower content) \<and> length lines < 30 then True
           else False))"

text \<open>
  The classification in the words of the specification (section 4.5): fewer than 10
  non-blank lines, or the literal phrase and fewer than 30 lines.
\<close>

definition spec_is_stub :: "string \<Rightarrow> bool" where
  "spec_is_stub content \<longleftrightarrow>
     length (filter (\<lambda>l. strip l \<noteq> []) (splitlines content)) < 10
     \<or> (py_in ''coming soon'' content \<and> length (splitlines content) < 30)"

text \<open>
  \<^verbatim>\<open>re.sub\<close> with a pattern \<^verbatim>\<open>[class]+\<close>: every maximal run of characters of the class is
  replaced by \<open>r\<close>. (With a pattern \<^verbatim>\<open>[class]\<close> and the empty replacement, \<^verbatim>\<open>re.sub\<close> is a
  \<open>filter\<close>.)
\<close>

function sub_runs :: "(char \<Rightarrow> bool) \<Rightarrow> string \<Rightarrow> string \<Rightarrow> string" where
  "sub_runs P r [] = []"
| "sub_runs P r (c # cs) =
     (if P c then r @ sub_runs P r (dropWhile P cs) else c # sub_runs P r cs)"
  by pat_completeness auto
termination
  by (relation "measure (\<lambda>(P, r, s). length s)")
     (auto simp: less_Suc_eq_le length_dropWhile_le)

text \<open>The character classes of \<^verbatim>\<open>_slugify\<close>: \<^verbatim>\<open>[a-z0-9\s-]\<close>, \<^verbatim>\<open>[\s_]\<close> and \<^verbatim>\<open>-\<close>.\<close>

definition is_az :: "char \<Rightarrow> bool" where
  "is_az c \<longleftrightarrow> 97 \<le> py_ord c \<and> py_ord c \<le> 122"

definition is_digit :: "char \<Rightarrow> bool" where
  "is_digit c \<longleftrightarrow> 48 \<le> py_ord c \<and> py_ord c \<le> 57"

definition is_hyphen :: "char \<Rightarrow> bool" where
  "is_hyphen c \<longleftrightarrow> c = CHR ''-''"

definition slug_keep :: "char \<Rightarrow> bool" where
  "slug_keep c \<longleftrightarrow> is_az c \<or> is_digit c \<or> is_space c \<or> is_hyphen c"

definition space_or_underscore :: "char \<Rightarrow> bool" where
  "space_or_underscore c \<longleftrightarrow> is_space c \<or> c = CHR ''_''"

definition slugify :: "string \<Rightarrow> string" where
  "slugify name' =
     (let slug = strip (lower name');
          slug = filter slug_keep slug;
          slug = sub_runs space_or_underscore ''-'' slug;
          slug = strip_chars is_hyphen (sub_runs is_hyphen ''-'' slug)
      in slug)"

text \<open>
  Two sample pages: a component whose two lines of code are ten line feeds apart, and a
  page of ten lines that each carry the placeholder text with capital letters.
\<close>

definition ex_sparse_page :: string where
  "ex_sparse_page = ''export default function Page() {'' @ replicate 10 (CHR 0x0A) @ ''}''"

definition ex_soon_page :: string where
  "ex_soon_page = concat (replicate 10 (''<p>Coming Soon</p>'' @ [CHR 0x0A]))"

definition slug_char :: "char \<Rightarrow> bool" where
  "slug_char c \<longleftrightarrow> is_az c \<or> is_digit c \<or> is_hyphen c"

section \<open>Theorems: tier classifier\<close>

lemma any_positive_iff:
  "any_positive fc inds \<longleftrightarrow> (\<exists>ind \<in> set inds. 0 < get_count fc ind)"
  by (simp add: any_positive_def list_ex_iff)

text \<open>
  C5 (as stated, refuted). The claim lists five tier-3 labels and says that a mapping with
  no positive tier-4 label and none of those five positive never yields tier 3. The source's
  tier-3 list has a sixth label, \<^verbatim>\<open>tabs_complex\<close>: the mapping that holds only
  \<^verbatim>\<open>tabs_complex: 1\<close> is classified 3 by the code, 1 by the specification's order, and
  none of the claim's tier-4 or tier-3 labels is positive in it.
\<close>

theorem classify_screen_tier_spec_order_counterexample:
  "classify_screen_tier [''tabs_complex'' \<mapsto> 1] = 3
   \<and> spec_classify_tier [''tabs_complex'' \<mapsto> 1] = 1
   \<and> \<not> any_positive [''tabs_complex'' \<mapsto> 1] t4_indicators
   \<and> \<not> any_positive [''tabs_complex'' \<mapsto> 1] spec_t3_labels"
  by (simp add: classify_screen_tier_def spec_classify_tier_def any_positive_def
      get_count_def t4_indicators_def t3_indicators_def t2_indicators_def spec_t3_labels_def)

text \<open>
  C5 (amended). For every feature-count mapping the classifier returns 4 if any of
  camera, scanner, map, video, realtime, animation, device_api has a count above 0;
  otherwise 3 if any of charts, timers, builders, drag_drop, swipe, tabs_complex has a
  count above 0; otherwise 2 if any of forms, lists, cards, crud, detail_view, modals,
  tabs has a count above 0; otherwise 1. In particular a mapping with camera above 0 is
  tier 4 whatever the other counts are, and a mapping in which no tier-4 label and none of
  the six tier-3 labels is positive is never tier 3.
\<close>

theorem classify_screen_tier_decision_order:
  "classify_screen_tier fc =
     (if \<exists>k \<in> {''camera'', ''scanner'', ''map'', ''video'', ''realtime'', ''animation'',
                 ''device_api''}. 0 < get_count fc k then 4
      else if \<exists>k \<in> {''charts'', ''timers'', ''builders'', ''drag_drop'', ''swipe'',
                      ''tabs_complex''}. 0 < get_count fc k then 3
      else if \<exists>k \<in> {''forms'', ''lists'', ''cards'', ''crud'', ''detail_view'', ''modals'',
                      ''tabs''}. 0 < get_count fc k then 2
      else 1)
   \<and> (0 < get_count fc ''camera'' \<longrightarrow> classify_screen_tier fc = 4)
   \<and> ((\<forall>k \<in> {''camera'', ''scanner'', ''map'', ''video'', ''realtime'', ''animation'',
                ''device_api'', ''charts'', ''timers'', ''builders'', ''drag_drop'', ''swipe'',
                ''tabs_complex''}. get_count fc k \<le> 0)
        \<longrightarrow> classify_screen_tier fc \<noteq> 3)"
proof -
  have t4: "any_positive fc t4_indicators \<longleftrightarrow>
      (\<exists>k \<in> {''camera'', ''scanner'', ''map'', ''video'', ''realtime'', ''animation'',
              ''device_api''}. 0 < get_count fc k)"
    unfolding any_positive_iff t4_indicators_def by simp
  have t3: "any_positive fc t3_indicators \<longleftrightarrow>
      (\<exists>k \<in> {''charts'', ''timers'', ''builders'', ''drag_drop'', ''swipe'',
              ''tabs_complex''}. 0 < get_count fc k)"
    unfolding any_positive_iff t3_indicators_def by simp
  have t2: "any_positive fc t2_indicators \<longleftrightarrow>
      (\<exists>k \<in> {''forms'', ''lists'', ''cards'', ''crud'', ''detail_view'', ''modals'',
              ''tabs''}. 0 < get_count fc k)"
    unfolding any_positive_iff t2_indicators_def by simp
  have order: "classify_screen_tier fc =
     (if \<exists>k \<in> {''camera'', ''scanner'', ''map'', ''video'', ''realtime'', ''animation'',
                 ''device_api''}. 0 < get_count fc k then 4
      else if \<exists>k \<in> {''charts'', ''timers'', ''builders'', ''drag_drop'', ''swipe'',
                      ''tabs_complex''}. 0 < get_count fc k then 3
      else if \<exists>k \<in> {''forms'', ''lists'', ''cards'', ''crud'', ''detail_view'', ''modals'',
                      ''tabs''}. 0 < get_count fc k then 2
      else 1)"
    unfolding classify_screen_tier_def t4 t3 t2 ..
  have camera: "0 < get_count fc ''camera'' \<longrightarrow> classify_screen_tier fc = 4"
    unfolding classify_screen_tier_def t4 by auto
  have no3: "(\<forall>k \<in> {''camera'', ''scanner'', ''map'', ''video'', ''realtime'', ''animation'',
                ''device_api'', ''charts'', ''timers'', ''builders'', ''drag_drop'', ''swipe'',
                ''tabs_complex''}. get_count fc k \<le> 0)
        \<longrightarrow> classify_screen_tier fc \<noteq> 3"
    unfolding classify_screen_tier_def t4 t3 t2 by (simp add: not_less)
  from order camera no3 show ?thesis by blast
qed

theorem classify_screen_tier_decision_order_witness:
  "0 < get_count [''camera'' \<mapsto> 1, ''forms'' \<mapsto> 7, ''lists'' \<mapsto> 3] ''camera''
   \<and> classify_screen_tier [''camera'' \<mapsto> 1, ''forms'' \<mapsto> 7, ''lists'' \<mapsto> 3] = 4
   \<and> get_count [''forms'' \<mapsto> 2] ''tabs_complex'' \<le> 0
   \<and> classify_screen_tier [''forms'' \<mapsto> 2] = 2"
  using classify_screen_tier_decision_order
          [of "[''camera'' \<mapsto> 1, ''forms'' \<mapsto> 7, ''lists'' \<mapsto> 3]"]
        classify_screen_tier_decision_order [of "[''forms'' \<mapsto> 2]"]
  by (simp add: get_count_def)

section \<open>Theorems: completion statistics\<close>

lemma sum_setdefault:
  "sum_list (map g (setdefault k d al)) =
     sum_list (map g al) + (case map_of al k of Some v \<Rightarrow> 0 | None \<Rightarrow> g (k, d))"
  by (simp add: setdefault_def split: option.splits)

lemma map_of_setdefault:
  "map_of (setdefault k d al) k = Some (case map_of al k of Some v \<Rightarrow> v | None \<Rightarrow> d)"
  by (cases "map_of al k") (simp_all add: setdefault_def map_add_def)

lemma sum_map_entry:
  "map_of al k = Some v \<Longrightarrow>
   sum_list (map (\<lambda>(t, ts). h t ts) (AList.map_entry k f al)) =
     sum_list (map (\<lambda>(t, ts). h t ts) al) - h k v + (h k (f v) :: int)"
  by (induction al) (auto split: if_splits)

lemma map_of_map_entry_same:
  "map_of al k = Some v \<Longrightarrow> map_of (AList.map_entry k f al) k = Some (f v)"
  by (simp add: map_of_map_entry)

lemma wsum_bump:
  "wsum h (AList.map_entry k f (setdefault k d al)) =
     wsum h al + (case map_of al k of Some v \<Rightarrow> h k (f v) - h k v | None \<Rightarrow> h k (f d))"
proof (cases "map_of al k")
  case None
  then have "map_of (setdefault k d al) k = Some d" by (simp add: map_of_setdefault)
  from sum_map_entry[OF this, of h f] None show ?thesis
    by (simp add: wsum_def sum_setdefault)
next
  case (Some v)
  then have "map_of (setdefault k d al) k = Some v" by (simp add: map_of_setdefault)
  from sum_map_entry[OF this, of h f] Some show ?thesis
    by (simp add: wsum_def sum_setdefault)
qed

lemma count_feature_total: "c_total (count_feature f c) = c_total c + 1"
  by (simp add: count_feature_def Let_def)

lemma count_feature_implemented:
  "c_implemented (count_feature f c) =
     c_implemented c + (if status f = ''implemented'' then 1 else 0)"
  by (simp add: count_feature_def Let_def)

lemma count_feature_deferred:
  "c_deferred (count_feature f c) = c_deferred c + (if status f = ''deferred'' then 1 else 0)"
  by (simp add: count_feature_def Let_def)

lemma count_feature_out_of_scope:
  "c_out_of_scope (count_feature f c) =
     c_out_of_scope c + (if status f = ''out_of_scope'' then 1 else 0)"
  by (simp add: count_feature_def Let_def)

lemma count_feature_wsum_total:
  "wsum (\<lambda>t ts. w t * ts_total ts) (c_by_tier (count_feature f c)) =
     wsum (\<lambda>t ts. w t * ts_total ts) (c_by_tier c) + w (tier f)"
proof -
  let ?h = "\<lambda>t ts. w t * ts_total ts"
  let ?b1 = "setdefault (tier f) \<lparr>ts_total = 0, ts_done = 0\<rparr> (c_by_tier c)"
  let ?b2 = "AList.map_entry (tier f) (\<lambda>ts. ts\<lparr>ts_total := ts_total ts + 1\<rparr>) ?b1"
  have b2: "wsum ?h ?b2 = wsum ?h (c_by_tier c) + w (tier f)"
    by (simp add: wsum_bump algebra_simps split: option.splits)
  obtain v where v: "map_of ?b2 (tier f) = Some v"
    by (simp add: map_of_map_entry map_of_setdefault)
  have b3: "wsum ?h (AList.map_entry (tier f) (\<lambda>ts. ts\<lparr>ts_done := ts_done ts + 1\<rparr>) ?b2) =
            wsum ?h ?b2"
    using sum_map_entry[OF v, of ?h "\<lambda>ts. ts\<lparr>ts_done := ts_done ts + 1\<rparr>"]
    by (simp add: wsum_def)
  show ?thesis using b2 b3 by (simp add: count_feature_def Let_def)
qed

lemma count_feature_wsum_done:
  "wsum (\<lambda>t ts. w t * ts_done ts) (c_by_tier (count_feature f c)) =
     wsum (\<lambda>t ts. w t * ts_done ts) (c_by_tier c)
       + (if status f = ''implemented'' then w (tier f) else 0)"
proof -
  let ?h = "\<lambda>t ts. w t * ts_done ts"
  let ?b1 = "setdefault (tier f) \<lparr>ts_total = 0, ts_done = 0\<rparr> (c_by_tier c)"
  let ?b2 = "AList.map_entry (tier f) (\<lambda>ts. ts\<lparr>ts_total := ts_total ts + 1\<rparr>) ?b1"
  have b2: "wsum ?h ?b2 = wsum ?h (c_by_tier c)"
    by (simp add: wsum_bump algebra_simps split: option.splits)
  obtain v where v: "map_of ?b2 (tier f) = Some v"
    by (simp add: map_of_map_entry map_of_setdefault)
  have b3: "wsum ?h (AList.map_entry (tier f) (\<lambda>ts. ts\<lparr>ts_done := ts_done ts + 1\<rparr>) ?b2) =
            wsum ?h ?b2 + w (tier f)"
    using sum_map_entry[OF v, of ?h "\<lambda>ts. ts\<lparr>ts_done := ts_done ts + 1\<rparr>"]
    by (simp add: wsum_def algebra_simps)
  show ?thesis using b2 b3 by (simp add: count_feature_def Let_def)
qed

lemma count_features_total:
  "c_total (count_features fs c) = c_total c + int (length fs)"
  by (induction fs arbitrary: c) (simp_all add: count_feature_total)

lemma count_features_implemented:
  "c_implemented (count_features fs c) = c_implemented c + count_status ''implemented'' fs"
  by (induction fs arbitrary: c) (simp_all add: count_feature_implemented count_status_def)

lemma count_features_deferred:
  "c_deferred (count_features fs c) = c_deferred c + count_status ''deferred'' fs"
  by (induction fs arbitrary: c) (simp_all add: count_feature_deferred count_status_def)

lemma count_features_out_of_scope:
  "c_out_of_scope (count_features fs c) = c_out_of_scope c + count_status ''out_of_scope'' fs"
  by (induction fs arbitrary: c) (simp_all add: count_feature_out_of_scope count_status_def)

lemma count_features_wsum_total:
  "wsum (\<lambda>t ts. w t * ts_total ts) (c_by_tier (count_features fs c)) =
     wsum (\<lambda>t ts. w t * ts_total ts) (c_by_tier c) + sum_list (map (\<lambda>f. w (tier f)) fs)"
  by (induction fs arbitrary: c) (simp_all add: count_feature_wsum_total)

lemma count_features_wsum_done:
  "wsum (\<lambda>t ts. w t * ts_done ts) (c_by_tier (count_features fs c)) =
     wsum (\<lambda>t ts. w t * ts_done ts) (c_by_tier c)
       + sum_list (map (\<lambda>f. w (tier f)) (filter (\<lambda>f. status f = ''implemented'') fs))"
  by (induction fs arbitrary: c) (simp_all add: count_feature_wsum_done)

lemma tier_weight_values:
  "tier_weight 1 = 1" "tier_weight 2 = 2" "tier_weight 3 = 4" "tier_weight 4 = 8"
  by (simp_all add: tier_weight_def TIER_WEIGHTS_def)

lemma sum_list_ones: "sum_list (map (\<lambda>f. 1::int) fs) = int (length fs)"
  by (induction fs) simp_all

lemma by_tier_total_sum:
  "sum_list (map (\<lambda>(t, ts). ts_total ts) (stats_by_tier (compute_completion fs))) = int (length fs)"
  using count_features_wsum_total[of "\<lambda>_. 1" fs
      "\<lparr>c_by_tier = [], c_total = 0, c_implemented = 0, c_deferred = 0, c_out_of_scope = 0\<rparr>"]
  by (simp add: compute_completion_def Let_def wsum_def sum_list_ones)

lemma stats_total_eq: "stats_total (compute_completion fs) = int (length fs)"
  by (simp add: compute_completion_def Let_def count_features_total)

lemma stats_implemented_eq:
  "stats_implemented (compute_completion fs) = count_status ''implemented'' fs"
  by (simp add: compute_completion_def Let_def count_features_implemented)

lemma stats_deferred_eq:
  "stats_deferred (compute_completion fs) = count_status ''deferred'' fs"
  by (simp add: compute_completion_def Let_def count_features_deferred)

lemma stats_out_of_scope_eq:
  "stats_out_of_scope (compute_completion fs) = count_status ''out_of_scope'' fs"
  by (simp add: compute_completion_def Let_def count_features_out_of_scope)

lemma stats_pct_eq:
  "stats_pct (compute_completion fs) =
     (if stats_total (compute_completion fs) > 0
      then Round1_pct (stats_implemented (compute_completion fs)) (stats_total (compute_completion fs))
      else Float_zero)"
  by (simp add: compute_completion_def Let_def)

lemma stats_effort_score_eq:
  "stats_effort_score (compute_completion fs) =
     (if total_effort_of fs > 0 then Round1_pct (done_effort_of fs) (total_effort_of fs)
      else Float_zero)"
  using count_features_wsum_total[of tier_weight fs
      "\<lparr>c_by_tier = [], c_total = 0, c_implemented = 0, c_deferred = 0, c_out_of_scope = 0\<rparr>"]
    count_features_wsum_done[of tier_weight fs
      "\<lparr>c_by_tier = [], c_total = 0, c_implemented = 0, c_deferred = 0, c_out_of_scope = 0\<rparr>"]
  by (simp add: compute_completion_def Let_def wsum_def total_effort_of_def done_effort_of_def)

lemma stats_open_eq:
  "stats_open (compute_completion fs) =
     stats_total (compute_completion fs) - stats_implemented (compute_completion fs)
       - stats_deferred (compute_completion fs) - stats_out_of_scope (compute_completion fs)"
  by (simp add: compute_completion_def Let_def)

lemma count_open_split:
  "int (length (filter (\<lambda>f. status f \<noteq> ''implemented'' \<and> status f \<noteq> ''deferred''
                          \<and> status f \<noteq> ''out_of_scope'') fs)) =
   int (length fs) - count_status ''implemented'' fs - count_status ''deferred'' fs
     - count_status ''out_of_scope'' fs"
  by (induction fs) (auto simp: count_status_def)


lemma map_fst_map_entry: "map fst (AList.map_entry k f al) = map fst al"
  by (induction al) auto

lemma distinct_setdefault:
  "distinct (map fst al) \<Longrightarrow> distinct (map fst (setdefault k d al))"
  by (auto simp: setdefault_def map_of_eq_None_iff split: option.splits)

lemma count_feature_distinct:
  "distinct (map fst (c_by_tier c)) \<Longrightarrow> distinct (map fst (c_by_tier (count_feature f c)))"
  by (simp add: count_feature_def Let_def map_fst_map_entry distinct_setdefault)

lemma count_features_distinct:
  "distinct (map fst (c_by_tier c)) \<Longrightarrow> distinct (map fst (c_by_tier (count_features fs c)))"
  by (induction fs arbitrary: c) (simp_all add: count_feature_distinct)

lemma by_tier_distinct: "distinct (map fst (stats_by_tier (compute_completion fs)))"
  by (simp add: compute_completion_def Let_def count_features_distinct)

text \<open>
  C7. For every list of features: the keys of \<^verbatim>\<open>by_tier\<close> are distinct tiers and the sum
  of their \<^verbatim>\<open>total\<close> entries equals \<^verbatim>\<open>total\<close>, which is the number of features;
  \<^verbatim>\<open>pct\<close> is \<^verbatim>\<open>round(implemented / total * 100, 1)\<close> when total is above 0 and
  \<^verbatim>\<open>0.0\<close> otherwise, with implemented the number of features of status implemented;
  the effort score is \<^verbatim>\<open>round(doneEffort / totalEffort * 100, 1)\<close> (\<^verbatim>\<open>0.0\<close> when the
  total effort is 0), where the total effort is the sum of the tier weights of all
  features, the done effort that of the implemented ones, and the weights of tiers 1 to 4
  are 1, 2, 4 and 8.
\<close>

theorem compute_completion_aggregates:
  "distinct (map fst (stats_by_tier (compute_completion fs)))
   \<and> sum_list (map (\<lambda>(t, ts). ts_total ts) (stats_by_tier (compute_completion fs)))
       = stats_total (compute_completion fs)
   \<and> stats_total (compute_completion fs) = int (length fs)
   \<and> stats_implemented (compute_completion fs) = count_status ''implemented'' fs
   \<and> stats_pct (compute_completion fs) =
       (if stats_total (compute_completion fs) > 0
        then Round1_pct (stats_implemented (compute_completion fs))
                        (stats_total (compute_completion fs))
        else Float_zero)
   \<and> stats_effort_score (compute_completion fs) =
       (if total_effort_of fs > 0 then Round1_pct (done_effort_of fs) (total_effort_of fs)
        else Float_zero)
   \<and> tier_weight 1 = 1 \<and> tier_weight 2 = 2 \<and> tier_weight 3 = 4 \<and> tier_weight 4 = 8"
  using by_tier_distinct[of fs] by_tier_total_sum[of fs] stats_total_eq[of fs]
    stats_implemented_eq[of fs] stats_pct_eq[of fs] stats_effort_score_eq[of fs]
    tier_weight_values
  by simp

theorem compute_completion_aggregates_witness:
  "stats_total (compute_completion
      [ex_feature ''a'' 1 ''open'', ex_feature ''b'' 4 ''implemented'',
       ex_feature ''c'' 4 ''removed_from_design'', ex_feature ''d'' 2 ''implemented'']) = 4
   \<and> stats_pct (compute_completion
      [ex_feature ''a'' 1 ''open'', ex_feature ''b'' 4 ''implemented'',
       ex_feature ''c'' 4 ''removed_from_design'', ex_feature ''d'' 2 ''implemented''])
      = Round1_pct 2 4
   \<and> stats_effort_score (compute_completion
      [ex_feature ''a'' 1 ''open'', ex_feature ''b'' 4 ''implemented'',
       ex_feature ''c'' 4 ''removed_from_design'', ex_feature ''d'' 2 ''implemented''])
      = Round1_pct 10 19"
  using compute_completion_aggregates
    [of "[ex_feature ''a'' 1 ''open'', ex_feature ''b'' 4 ''implemented'',
       ex_feature ''c'' 4 ''removed_from_design'', ex_feature ''d'' 2 ''implemented'']"]
  by (simp add: ex_feature_def make_feature_def count_status_def total_effort_of_def
      done_effort_of_def tier_weight_def TIER_WEIGHTS_def)

text \<open>
  C10. For every list of features the open count is total minus implemented minus
  deferred minus out_of_scope, which is the number of features whose status is none of
  those three; features of status removed_from_design are among them. The denominator of
  the completion percentage is the number of all features and that of the effort score
  the weight of all features: appending a feature of status removed_from_design raises
  the open count and the total by one and the total effort by the feature's tier weight,
  and leaves the implemented count and the done effort as they were.
\<close>

theorem compute_completion_open_is_remainder:
  "stats_open (compute_completion fs) =
     stats_total (compute_completion fs) - stats_implemented (compute_completion fs)
       - stats_deferred (compute_completion fs) - stats_out_of_scope (compute_completion fs)
   \<and> stats_open (compute_completion fs) =
       int (length (filter (\<lambda>f. status f \<noteq> ''implemented'' \<and> status f \<noteq> ''deferred''
                                 \<and> status f \<noteq> ''out_of_scope'') fs))
   \<and> count_status ''removed_from_design'' fs \<le> stats_open (compute_completion fs)
   \<and> stats_pct (compute_completion fs) =
       (if int (length fs) > 0 then Round1_pct (count_status ''implemented'' fs) (int (length fs))
        else Float_zero)
   \<and> stats_effort_score (compute_completion fs) =
       (if total_effort_of fs > 0 then Round1_pct (done_effort_of fs) (total_effort_of fs)
        else Float_zero)
   \<and> (status f = ''removed_from_design'' \<longrightarrow>
        stats_open (compute_completion (fs @ [f])) = stats_open (compute_completion fs) + 1
        \<and> stats_total (compute_completion (fs @ [f])) = stats_total (compute_completion fs) + 1
        \<and> stats_implemented (compute_completion (fs @ [f]))
            = stats_implemented (compute_completion fs)
        \<and> total_effort_of (fs @ [f]) = total_effort_of fs + tier_weight (tier f)
        \<and> done_effort_of (fs @ [f]) = done_effort_of fs)"
proof -
  have open_eq: "stats_open (compute_completion gs) =
       int (length (filter (\<lambda>f. status f \<noteq> ''implemented'' \<and> status f \<noteq> ''deferred''
                                 \<and> status f \<noteq> ''out_of_scope'') gs))" for gs
    by (simp add: stats_open_eq stats_total_eq stats_implemented_eq stats_deferred_eq
        stats_out_of_scope_eq count_open_split)
  have removed_le: "count_status ''removed_from_design'' fs \<le> stats_open (compute_completion fs)"
  proof -
    have "length (filter (\<lambda>f. status f = ''removed_from_design'') fs)
        \<le> length (filter (\<lambda>f. status f \<noteq> ''implemented'' \<and> status f \<noteq> ''deferred''
                                 \<and> status f \<noteq> ''out_of_scope'') fs)"
      by (induction fs) auto
    then show ?thesis by (simp add: open_eq count_status_def)
  qed
  have pct: "stats_pct (compute_completion fs) =
       (if int (length fs) > 0 then Round1_pct (count_status ''implemented'' fs) (int (length fs))
        else Float_zero)"
    using stats_pct_eq[of fs] by (simp add: stats_total_eq stats_implemented_eq)
  have app: "status f = ''removed_from_design'' \<longrightarrow>
        stats_open (compute_completion (fs @ [f])) = stats_open (compute_completion fs) + 1
        \<and> stats_total (compute_completion (fs @ [f])) = stats_total (compute_completion fs) + 1
        \<and> stats_implemented (compute_completion (fs @ [f]))
            = stats_implemented (compute_completion fs)
        \<and> total_effort_of (fs @ [f]) = total_effort_of fs + tier_weight (tier f)
        \<and> done_effort_of (fs @ [f]) = done_effort_of fs"
    by (simp add: open_eq stats_total_eq stats_implemented_eq count_status_def
        total_effort_of_def done_effort_of_def)
  from stats_open_eq[of fs] open_eq[of fs] removed_le pct stats_effort_score_eq[of fs] app
  show ?thesis by blast
qed

theorem compute_completion_open_is_remainder_witness:
  "status (ex_feature ''c'' 4 ''removed_from_design'') = ''removed_from_design''
   \<and> stats_open (compute_completion
        [ex_feature ''a'' 1 ''open'', ex_feature ''b'' 4 ''implemented'']) = 1
   \<and> stats_open (compute_completion
        ([ex_feature ''a'' 1 ''open'', ex_feature ''b'' 4 ''implemented'']
          @ [ex_feature ''c'' 4 ''removed_from_design''])) = 2
   \<and> stats_total (compute_completion
        ([ex_feature ''a'' 1 ''open'', ex_feature ''b'' 4 ''implemented'']
          @ [ex_feature ''c'' 4 ''removed_from_design''])) = 3
   \<and> total_effort_of ([ex_feature ''a'' 1 ''open'', ex_feature ''b'' 4 ''implemented'']
          @ [ex_feature ''c'' 4 ''removed_from_design'']) = 17"
  using compute_completion_open_is_remainder
    [of "[ex_feature ''a'' 1 ''open'', ex_feature ''b'' 4 ''implemented'']"
        "ex_feature ''c'' 4 ''removed_from_design''"]
  by (simp add: ex_feature_def make_feature_def total_effort_of_def tier_weight_def
      TIER_WEIGHTS_def stats_total_eq)

section \<open>Theorems: reconciliation store\<close>

subsection \<open>Substring test\<close>

lemma py_in_iff: "py_in p s \<longleftrightarrow> (\<exists>ps ss. s = ps @ p @ ss)"
proof (induction s)
  case Nil
  then show ?case by auto
next
  case (Cons c cs)
  show ?case
  proof
    assume "py_in p (c # cs)"
    then consider "prefix p (c # cs)" | "py_in p cs" by auto
    then show "\<exists>ps ss. c # cs = ps @ p @ ss"
    proof cases
      case 1
      then obtain ss where "c # cs = p @ ss" by (auto simp: prefix_def)
      then have "c # cs = [] @ p @ ss" by simp
      then show ?thesis by blast
    next
      case 2
      with Cons obtain ps ss where "cs = ps @ p @ ss" by auto
      then have "c # cs = (c # ps) @ p @ ss" by simp
      then show ?thesis by blast
    qed
  next
    assume "\<exists>ps ss. c # cs = ps @ p @ ss"
    then obtain ps ss where eq: "c # cs = ps @ p @ ss" by blast
    show "py_in p (c # cs)"
    proof (cases ps)
      case Nil
      with eq have "prefix p (c # cs)" by (simp add: prefix_def)
      then show ?thesis by simp
    next
      case (Cons a ps')
      with eq have "cs = ps' @ p @ ss" by simp
      with Cons.IH have "py_in p cs" by blast
      then show ?thesis by simp
    qed
  qed
qed

subsection \<open>The loops as maps and filters\<close>

lemma remove_missing_eq:
  "remove_missing ids al r =
     (map (mark_removed ids) al,
      r + int (length (filter (\<lambda>e. fst e \<notin> ids \<and> status (snd e) = ''open'') al)))"
  by (induction ids al r rule: remove_missing.induct) (auto simp: mark_removed_def)

lemma resolve_loop_eq:
  "resolve_loop p s al r =
     (map (\<lambda>e. if resolve_matches p e then (fst e, (snd e)\<lparr>status := s\<rparr>) else e) al,
      r @ map fst (filter (resolve_matches p) al))"
  by (induction p s al r rule: resolve_loop.induct)
     (auto simp: resolve_matches_def py_in_iff)

subsection \<open>resolve\<close>

lemma resolve_feature_features:
  "features (fst (resolve_feature st p s)) =
     map (\<lambda>e. if resolve_matches p e then (fst e, (snd e)\<lparr>status := s\<rparr>) else e) (features st)"
  by (simp add: resolve_feature_def resolve_loop_eq recompute_stats_def)

lemma resolve_feature_resolved:
  "snd (resolve_feature st p s) = map fst (filter (resolve_matches p) (features st))"
  by (simp add: resolve_feature_def resolve_loop_eq)

lemma changed_positions:
  "s \<noteq> ''open'' \<Longrightarrow>
   map (fst \<circ> fst)
     (filter (\<lambda>(e, e'). status (snd e') \<noteq> status (snd e))
        (zip al (map (\<lambda>e. if resolve_matches p e then (fst e, (snd e)\<lparr>status := s\<rparr>) else e) al)))
   = map fst (filter (resolve_matches p) al)"
  by (induction al) (auto simp: resolve_matches_def)

text \<open>
  C3. For every state, pattern and new status, \<^verbatim>\<open>resolve_feature\<close> sets the status of
  exactly the entries that are open and whose id equals the pattern, or whose
  \<^verbatim>\<open>screen_id\<close> equals the pattern, or whose id contains the pattern as a substring
  (\<open>resolve_matches\<close>); every other entry, so every entry that is not open, is left as it
  is, in the same position. The returned list is the ids of the entries so set, in
  dictionary order; for a new status other than open these are exactly the positions
  whose status differs before and after. When nothing matches the list is empty and the
  features are unchanged; the function has no raising path. Of the other keys of the
  state only \<^verbatim>\<open>stats\<close> is written.
\<close>

theorem resolve_feature_sets_open_matches:
  "(resolve_matches p (k, f) \<longleftrightarrow>
      status f = ''open''
      \<and> (k = p \<or> screen_id f = p \<or> (\<exists>ps ss. k = ps @ p @ ss)))
   \<and> features (fst (resolve_feature st p s)) =
       map (\<lambda>e. if resolve_matches p e then (fst e, (snd e)\<lparr>status := s\<rparr>) else e)
         (features st)
   \<and> snd (resolve_feature st p s) = map fst (filter (resolve_matches p) (features st))
   \<and> (s \<noteq> ''open'' \<longrightarrow>
        snd (resolve_feature st p s) =
          map (fst \<circ> fst)
            (filter (\<lambda>(e, e'). status (snd e') \<noteq> status (snd e))
               (zip (features st) (features (fst (resolve_feature st p s))))))
   \<and> ((\<forall>e \<in> set (features st). \<not> resolve_matches p e) \<longrightarrow>
        snd (resolve_feature st p s) = []
        \<and> features (fst (resolve_feature st p s)) = features st)
   \<and> fst (resolve_feature st p s) =
       st\<lparr>features := features (fst (resolve_feature st p s)),
          stats := Some (compute_completion
                           (map snd (features (fst (resolve_feature st p s)))))\<rparr>"
proof -
  have m: "resolve_matches p (k, f) \<longleftrightarrow>
      status f = ''open''
      \<and> (k = p \<or> screen_id f = p \<or> (\<exists>ps ss. k = ps @ p @ ss))"
    by (simp add: resolve_matches_def)
  have ch: "s \<noteq> ''open'' \<longrightarrow>
        snd (resolve_feature st p s) =
          map (fst \<circ> fst)
            (filter (\<lambda>(e, e'). status (snd e') \<noteq> status (snd e))
               (zip (features st) (features (fst (resolve_feature st p s)))))"
    using changed_positions[of s "features st" p]
    by (simp add: resolve_feature_features resolve_feature_resolved)
  have none: "(\<forall>e \<in> set (features st). \<not> resolve_matches p e) \<longrightarrow>
        snd (resolve_feature st p s) = []
        \<and> features (fst (resolve_feature st p s)) = features st"
  proof
    assume a: "\<forall>e \<in> set (features st). \<not> resolve_matches p e"
    then have "filter (resolve_matches p) (features st) = []"
      by (simp add: filter_empty_conv)
    moreover from a have
      "map (\<lambda>e. if resolve_matches p e then (fst e, (snd e)\<lparr>status := s\<rparr>) else e) (features st)
         = features st"
      by (simp add: map_idI)
    ultimately show "snd (resolve_feature st p s) = []
        \<and> features (fst (resolve_feature st p s)) = features st"
      by (simp add: resolve_feature_features resolve_feature_resolved)
  qed
  have frame: "fst (resolve_feature st p s) =
       st\<lparr>features := features (fst (resolve_feature st p s)),
          stats := Some (compute_completion
                           (map snd (features (fst (resolve_feature st p s)))))\<rparr>"
    by (simp add: resolve_feature_def recompute_stats_def split: prod.splits)
  from m resolve_feature_features[of st p s] resolve_feature_resolved[of st p s] ch none frame
  show ?thesis by blast
qed


lemma resolve_matches_code:
  "resolve_matches p e \<longleftrightarrow>
     status (snd e) = ''open''
     \<and> (fst e = p \<or> screen_id (snd e) = p \<or> py_in p (fst e))"
  by (simp add: resolve_matches_def py_in_iff)

lemmas ex_defs = ex_state_def ex_home_def ex_login_def ex_settings_def make_feature_def
  empty_state_def CURRENT_VERSION_def

theorem resolve_feature_sets_open_matches_witness:
  "snd (resolve_feature ex_state ''s1'' ''implemented'')
     = [''screen::s1::Home'', ''form::s1::Login'']
   \<and> status_view (features (fst (resolve_feature ex_state ''s1'' ''implemented'')))
     = [(''screen::s1::Home'', ''implemented''), (''form::s1::Login'', ''implemented''),
        (''screen::s2::Settings'', ''implemented'')]
   \<and> snd (resolve_feature ex_state ''nothing'' ''deferred'') = []"
proof -
  note t = resolve_feature_sets_open_matches
             [of "''s1''" "''screen::s1::Home''" ex_home ex_state "''implemented''"]
  note u = resolve_feature_sets_open_matches
             [of "''nothing''" "''screen::s1::Home''" ex_home ex_state "''deferred''"]
  have a: "snd (resolve_feature ex_state ''s1'' ''implemented'')
             = map fst (filter (resolve_matches ''s1'') (features ex_state))"
    using t by (elim conjE)
  have b: "features (fst (resolve_feature ex_state ''s1'' ''implemented'')) =
             map (\<lambda>e. if resolve_matches ''s1'' e
                       then (fst e, (snd e)\<lparr>status := ''implemented''\<rparr>) else e)
               (features ex_state)"
    using t by (elim conjE)
  have c: "snd (resolve_feature ex_state ''nothing'' ''deferred'')
             = map fst (filter (resolve_matches ''nothing'') (features ex_state))"
    using u by (elim conjE)
  show ?thesis
    unfolding a b c by (simp add: resolve_matches_code status_view_def ex_defs)
qed

subsection \<open>The merge loop\<close>

lemma rescan_rescan: "rescan now g (rescan now f old) = rescan now g old"
  by (cases old) (simp add: rescan_def)

lemma rescan_status: "status (rescan now g old) = status old"
  by (simp add: rescan_def)

lemma merge_feature_alt:
  "merge_feature now f v =
     (if fid f \<in> fst ` set (existing v)
      then v\<lparr>current_ids := insert (fid f) (current_ids v),
             existing := AList.map_entry (fid f) (rescan now f) (existing v)\<rparr>
      else v\<lparr>current_ids := insert (fid f) (current_ids v),
             existing := AList.update (fid f) f (existing v),
             new_count := new_count v + 1\<rparr>)"
  by (simp add: merge_feature_def Let_def rescan_def[abs_def])

lemma merge_features_ids:
  "current_ids (merge_features now fs v) = current_ids v \<union> fid ` set fs"
  by (induction fs arbitrary: v) (auto simp: merge_feature_alt)

lemma filter_map_entry_other:
  "k \<in> ids \<Longrightarrow>
   filter (\<lambda>e. fst e \<notin> ids) (AList.map_entry k g al) = filter (\<lambda>e. fst e \<notin> ids) al"
  by (induction al) auto

lemma filter_update_other:
  "k \<in> ids \<Longrightarrow>
   filter (\<lambda>e. fst e \<notin> ids) (AList.update k x al) = filter (\<lambda>e. fst e \<notin> ids) al"
  by (induction al) auto

lemma merge_features_outside:
  "fid ` set fs \<subseteq> ids \<Longrightarrow>
   filter (\<lambda>e. fst e \<notin> ids) (existing (merge_features now fs v))
     = filter (\<lambda>e. fst e \<notin> ids) (existing v)"
  by (induction fs arbitrary: v)
     (auto simp: merge_feature_alt filter_map_entry_other filter_update_other)

lemma map_of_merge_feature:
  "map_of (existing (merge_feature now f v)) k =
     (if k = fid f
      then Some (case map_of (existing v) k of Some old \<Rightarrow> rescan now f old | None \<Rightarrow> f)
      else map_of (existing v) k)"
proof (cases "fid f \<in> fst ` set (existing v)")
  case True
  then obtain old where "map_of (existing v) (fid f) = Some old"
    by (metis map_of_eq_None_iff not_Some_eq)
  with True show ?thesis
    by (simp add: merge_feature_alt map_of_map_entry)
next
  case False
  then have "map_of (existing v) (fid f) = None" by (simp add: map_of_eq_None_iff)
  with False show ?thesis
    by (simp add: merge_feature_alt update_conv')
qed

lemma merge_features_untouched:
  "k \<notin> fid ` set fs \<Longrightarrow>
   map_of (existing (merge_features now fs v)) k = map_of (existing v) k"
  by (induction fs arbitrary: v) (auto simp: map_of_merge_feature)

lemma merge_features_known:
  "map_of (existing v) k = Some old \<Longrightarrow>
   map_of (existing (merge_features now fs v)) k =
     Some (case filter (\<lambda>g. fid g = k) fs of [] \<Rightarrow> old | g # gs \<Rightarrow> rescan now (last (g # gs)) old)"
proof (induction fs arbitrary: v old)
  case Nil
  then show ?case by simp
next
  case (Cons f fs)
  show ?case
  proof (cases "fid f = k")
    case True
    with Cons.prems have "map_of (existing (merge_feature now f v)) k = Some (rescan now f old)"
      by (simp add: map_of_merge_feature)
    from Cons.IH[OF this] True show ?thesis
      by (simp add: rescan_rescan split: list.splits)
  next
    case False
    with Cons.prems have "map_of (existing (merge_feature now f v)) k = Some old"
      by (simp add: map_of_merge_feature)
    from Cons.IH[OF this] False show ?thesis by simp
  qed
qed

lemma map_fst_map_entry': "map fst (AList.map_entry k g al) = map fst al"
  by (induction al) auto

lemma merge_feature_keys:
  "map fst (existing (merge_feature now f v)) =
     map fst (existing v) @ (if fid f \<in> fst ` set (existing v) then [] else [fid f])"
  by (simp add: merge_feature_alt map_fst_map_entry' update_keys)

lemma merge_features_keys_prefix:
  "prefix (map fst (existing v)) (map fst (existing (merge_features now fs v)))"
proof (induction fs arbitrary: v)
  case Nil
  then show ?case by simp
next
  case (Cons f fs)
  have "prefix (map fst (existing v)) (map fst (existing (merge_feature now f v)))"
    by (simp add: merge_feature_keys)
  with Cons.IH[of "merge_feature now f v"] show ?case
    by (auto intro: prefix_order.trans)
qed

lemma merge_features_keys:
  "fst ` set (existing (merge_features now fs v)) = fst ` set (existing v) \<union> fid ` set fs"
proof (induction fs arbitrary: v)
  case Nil
  then show ?case by simp
next
  case (Cons f fs)
  have "set (map fst (existing (merge_feature now f v)))
          = insert (fid f) (set (map fst (existing v)))"
    unfolding merge_feature_keys by auto
  then have "fst ` set (existing (merge_feature now f v))
          = insert (fid f) (fst ` set (existing v))" by simp
  with Cons.IH[of "merge_feature now f v"] show ?case by auto
qed

subsection \<open>The removal loop\<close>

lemma map_fst_mark_removed: "map fst (map (mark_removed ids) al) = map fst al"
  by (induction al) (auto simp: mark_removed_def)

lemma map_comp_mark_removed: "map (fst \<circ> mark_removed ids) al = map fst al"
  by (induction al) (auto simp: mark_removed_def)

lemma map_of_mark_removed:
  "map_of (map (mark_removed ids) al) k =
     map_option (\<lambda>f. if k \<notin> ids \<and> status f = ''open''
                      then f\<lparr>status := ''removed_from_design''\<rparr> else f) (map_of al k)"
  by (induction al) (auto simp: mark_removed_def)

lemma filter_mark_removed:
  "filter (\<lambda>e. fst e \<notin> ids) (map (mark_removed ids) al) =
     map (\<lambda>e. (fst e, if status (snd e) = ''open''
                      then (snd e)\<lparr>status := ''removed_from_design''\<rparr> else snd e))
       (filter (\<lambda>e. fst e \<notin> ids) al)"
  by (induction al) (auto simp: mark_removed_def)

subsection \<open>merge\_scan as a whole\<close>

lemma merge_scan_features:
  "features (fst (merge_scan now st fresh src)) =
     map (mark_removed (fid ` set fresh))
       (existing (merge_features now fresh
          \<lparr>existing = features st, current_ids = {}, new_count = 0\<rparr>))"
  by (simp add: merge_scan_def Let_def remove_missing_eq merge_features_ids
      recompute_stats_def)

lemma merge_scan_diff:
  "snd (merge_scan now st fresh src) =
     \<lparr>diff_new = new_count (merge_features now fresh
          \<lparr>existing = features st, current_ids = {}, new_count = 0\<rparr>),
      diff_removed = int (length (filter (\<lambda>e. fst e \<notin> fid ` set fresh \<and> status (snd e) = ''open'')
          (existing (merge_features now fresh
             \<lparr>existing = features st, current_ids = {}, new_count = 0\<rparr>)))),
      diff_total = int (card (fid ` set fresh))\<rparr>"
  by (simp add: merge_scan_def Let_def remove_missing_eq merge_features_ids)

lemma merge_scan_absent_entries:
  "filter (\<lambda>e. fst e \<notin> fid ` set fresh) (features (fst (merge_scan now st fresh src))) =
     map (\<lambda>e. (fst e, if status (snd e) = ''open''
                      then (snd e)\<lparr>status := ''removed_from_design''\<rparr> else snd e))
       (filter (\<lambda>e. fst e \<notin> fid ` set fresh) (features st))"
  using merge_features_outside[of fresh "fid ` set fresh" now
      "\<lparr>existing = features st, current_ids = {}, new_count = 0\<rparr>"]
  by (simp add: merge_scan_features filter_mark_removed)

lemma merge_scan_removed_count:
  "diff_removed (snd (merge_scan now st fresh src)) =
     int (length (filter (\<lambda>e. fst e \<notin> fid ` set fresh \<and> status (snd e) = ''open'')
                    (features st)))"
proof -
  let ?v = "merge_features now fresh \<lparr>existing = features st, current_ids = {}, new_count = 0\<rparr>"
  have "filter (\<lambda>e. fst e \<notin> fid ` set fresh) (existing ?v)
          = filter (\<lambda>e. fst e \<notin> fid ` set fresh) (features st)"
    using merge_features_outside[of fresh "fid ` set fresh" now
        "\<lparr>existing = features st, current_ids = {}, new_count = 0\<rparr>"]
    by simp
  then have "filter (\<lambda>e. status (snd e) = ''open'')
               (filter (\<lambda>e. fst e \<notin> fid ` set fresh) (existing ?v))
          = filter (\<lambda>e. status (snd e) = ''open'')
               (filter (\<lambda>e. fst e \<notin> fid ` set fresh) (features st))"
    by (simp only:)
  then have "filter (\<lambda>e. fst e \<notin> fid ` set fresh \<and> status (snd e) = ''open'') (existing ?v)
          = filter (\<lambda>e. fst e \<notin> fid ` set fresh \<and> status (snd e) = ''open'') (features st)"
    by (simp only: filter_filter)
  then show ?thesis by (simp only: merge_scan_diff diff.simps)
qed

lemma merge_scan_absent_lookup:
  "k \<notin> fid ` set fresh \<Longrightarrow>
   map_of (features (fst (merge_scan now st fresh src))) k =
     map_option (\<lambda>f. if status f = ''open'' then f\<lparr>status := ''removed_from_design''\<rparr> else f)
       (map_of (features st) k)"
  by (simp add: merge_scan_features map_of_mark_removed merge_features_untouched)

lemma merge_scan_present_lookup:
  "k \<in> fid ` set fresh \<Longrightarrow> map_of (features st) k = Some old \<Longrightarrow>
   map_of (features (fst (merge_scan now st fresh src))) k =
     Some (rescan now (last (filter (\<lambda>g. fid g = k) fresh)) old)"
proof -
  assume k: "k \<in> fid ` set fresh" and old: "map_of (features st) k = Some old"
  from k have ne: "filter (\<lambda>g. fid g = k) fresh \<noteq> []"
    by (auto simp: filter_empty_conv)
  from old have "map_of (existing \<lparr>existing = features st, current_ids = {}, new_count = 0\<rparr>) k
      = Some old" by simp
  from merge_features_known[OF this, of now fresh] ne k show ?thesis
    by (simp add: merge_scan_features map_of_mark_removed split: list.splits)
qed

lemma merge_scan_keys_prefix:
  "prefix (map fst (features st)) (map fst (features (fst (merge_scan now st fresh src))))"
  using merge_features_keys_prefix[of "\<lparr>existing = features st, current_ids = {}, new_count = 0\<rparr>"
      now fresh]
  by (simp add: merge_scan_features map_comp_mark_removed)

subsection \<open>Removal and update in place\<close>

text \<open>
  C1. For every state and fresh feature list, \<^verbatim>\<open>merge_scan\<close> leaves the entries whose id
  is not among the fresh ids in place and in order, and changes of them only the status
  of those that were open, to removed_from_design; so such an entry has its status
  changed to removed_from_design if and only if it was open before, and an entry of any
  other status (implemented, say) is returned as it was. The count \<^verbatim>\<open>removed\<close> of the diff
  is the number of entries so changed.
\<close>

theorem merge_scan_removal:
  "filter (\<lambda>e. fst e \<notin> fid ` set fresh) (features (fst (merge_scan now st fresh src))) =
     map (\<lambda>e. (fst e, if status (snd e) = ''open''
                      then (snd e)\<lparr>status := ''removed_from_design''\<rparr> else snd e))
       (filter (\<lambda>e. fst e \<notin> fid ` set fresh) (features st))
   \<and> diff_removed (snd (merge_scan now st fresh src)) =
       int (length (filter (\<lambda>e. fst e \<notin> fid ` set fresh \<and> status (snd e) = ''open'')
                      (features st)))
   \<and> (k \<notin> fid ` set fresh \<and> map_of (features st) k = Some f \<longrightarrow>
        map_of (features (fst (merge_scan now st fresh src))) k =
          Some (if status f = ''open'' then f\<lparr>status := ''removed_from_design''\<rparr> else f))
   \<and> (k \<notin> fid ` set fresh \<and> map_of (features st) k = Some f
        \<and> map_of (features (fst (merge_scan now st fresh src))) k = Some f' \<longrightarrow>
        ((status f' = ''removed_from_design'' \<and> status f' \<noteq> status f) \<longleftrightarrow> status f = ''open'')
        \<and> (status f \<noteq> ''open'' \<longrightarrow> f' = f))"
proof -
  have look: "k \<notin> fid ` set fresh \<and> map_of (features st) k = Some f \<longrightarrow>
        map_of (features (fst (merge_scan now st fresh src))) k =
          Some (if status f = ''open'' then f\<lparr>status := ''removed_from_design''\<rparr> else f)"
    by (simp add: merge_scan_absent_lookup)
  have iff: "k \<notin> fid ` set fresh \<and> map_of (features st) k = Some f
        \<and> map_of (features (fst (merge_scan now st fresh src))) k = Some f' \<longrightarrow>
        ((status f' = ''removed_from_design'' \<and> status f' \<noteq> status f) \<longleftrightarrow> status f = ''open'')
        \<and> (status f \<noteq> ''open'' \<longrightarrow> f' = f)"
  proof (intro impI, elim conjE)
    assume k: "k \<notin> fid ` set fresh" and f: "map_of (features st) k = Some f"
      and f': "map_of (features (fst (merge_scan now st fresh src))) k = Some f'"
    from look k f f' have eq: "f' = (if status f = ''open''
        then f\<lparr>status := ''removed_from_design''\<rparr> else f)" by simp
    show "((status f' = ''removed_from_design'' \<and> status f' \<noteq> status f) \<longleftrightarrow> status f = ''open'')
        \<and> (status f \<noteq> ''open'' \<longrightarrow> f' = f)"
    proof (cases "status f = ''open''")
      case True
      with eq have "status f' = ''removed_from_design''" by simp
      with True show ?thesis by simp
    next
      case False
      with eq have "f' = f" by simp
      with False show ?thesis by simp
    qed
  qed
  from merge_scan_absent_entries[of fresh now st src] merge_scan_removed_count[of now st fresh src]
    look iff
  show ?thesis by (intro conjI)
qed

theorem merge_scan_removal_witness:
  "map_of (features (fst (merge_scan ''2024-02-02T00:00:00+00:00'' ex_state [ex_home]
      ''design.json''))) ''form::s1::Login''
     = Some (ex_login\<lparr>status := ''removed_from_design''\<rparr>)
   \<and> map_of (features (fst (merge_scan ''2024-02-02T00:00:00+00:00'' ex_state [ex_home]
      ''design.json''))) ''screen::s2::Settings''
     = Some ex_settings
   \<and> diff_removed (snd (merge_scan ''2024-02-02T00:00:00+00:00'' ex_state [ex_home]
      ''design.json'')) = 1"
proof -
  note t1 = merge_scan_removal[of "[ex_home]" "''2024-02-02T00:00:00+00:00''" ex_state
      "''design.json''" "''form::s1::Login''" ex_login ex_login]
  note t2 = merge_scan_removal[of "[ex_home]" "''2024-02-02T00:00:00+00:00''" ex_state
      "''design.json''" "''screen::s2::Settings''" ex_settings ex_settings]
  have p1: "''form::s1::Login'' \<notin> fid ` set [ex_home]
      \<and> map_of (features ex_state) ''form::s1::Login'' = Some ex_login"
    by (simp add: ex_defs)
  have p2: "''screen::s2::Settings'' \<notin> fid ` set [ex_home]
      \<and> map_of (features ex_state) ''screen::s2::Settings'' = Some ex_settings"
    by (simp add: ex_defs)
  have s1: "status ex_login = ''open''" and s2: "status ex_settings \<noteq> ''open''"
    by (simp_all add: ex_defs)
  from t1 have i1: "''form::s1::Login'' \<notin> fid ` set [ex_home]
      \<and> map_of (features ex_state) ''form::s1::Login'' = Some ex_login \<longrightarrow>
      map_of (features (fst (merge_scan ''2024-02-02T00:00:00+00:00'' ex_state [ex_home]
        ''design.json''))) ''form::s1::Login''
      = Some (if status ex_login = ''open'' then ex_login\<lparr>status := ''removed_from_design''\<rparr>
              else ex_login)"
    by (elim conjE)
  from t2 have i2: "''screen::s2::Settings'' \<notin> fid ` set [ex_home]
      \<and> map_of (features ex_state) ''screen::s2::Settings'' = Some ex_settings \<longrightarrow>
      map_of (features (fst (merge_scan ''2024-02-02T00:00:00+00:00'' ex_state [ex_home]
        ''design.json''))) ''screen::s2::Settings''
      = Some (if status ex_settings = ''open''
              then ex_settings\<lparr>status := ''removed_from_design''\<rparr> else ex_settings)"
    by (elim conjE)
  from t1 have c: "diff_removed (snd (merge_scan ''2024-02-02T00:00:00+00:00'' ex_state [ex_home]
      ''design.json'')) =
       int (length (filter (\<lambda>e. fst e \<notin> fid ` set [ex_home] \<and> status (snd e) = ''open'')
                      (features ex_state)))"
    by (elim conjE)
  have c': "int (length (filter (\<lambda>e. fst e \<notin> fid ` set [ex_home] \<and> status (snd e) = ''open'')
                      (features ex_state))) = 1"
    by (simp add: ex_defs)
  from mp[OF i1 p1] s1 mp[OF i2 p2] s2 c c' show ?thesis by simp
qed

text \<open>
  C2. For every state and fresh feature list, an entry whose id is among the fresh ids is
  after \<^verbatim>\<open>merge_scan\<close> the old entry with \<^verbatim>\<open>last_seen\<close> set to the scan time and tier,
  summary and detail taken from the last fresh feature of that id; every other field,
  among them status, first_seen, name, category, detector, screen_id and id, is the old
  one, so an implemented feature that is still detected stays implemented. The old keys
  keep their positions (new ones are appended). The same holds for each single encounter
  inside the loop: when the id of the fresh feature is in the dictionary at that moment,
  the step assigns those four keys of that entry and inserts nothing.
\<close>

theorem merge_scan_update_in_place:
  "(k \<in> fid ` set fresh \<and> map_of (features st) k = Some old
      \<and> g = last (filter (\<lambda>g. fid g = k) fresh)
      \<and> f' = old\<lparr>last_seen := now, tier := tier g, summary := summary g, detail := detail g\<rparr>
    \<longrightarrow>
      map_of (features (fst (merge_scan now st fresh src))) k = Some f'
      \<and> g \<in> set fresh \<and> fid g = k
      \<and> status f' = status old \<and> first_seen f' = first_seen old \<and> name f' = name old
      \<and> category f' = category old \<and> detector f' = detector old
      \<and> screen_id f' = screen_id old \<and> fid f' = fid old
      \<and> (status old = ''implemented'' \<longrightarrow> status f' = ''implemented''))
   \<and> prefix (map fst (features st)) (map fst (features (fst (merge_scan now st fresh src))))
   \<and> (map_of (existing v) (fid f) = Some old \<longrightarrow>
        map_of (existing (merge_feature now f v)) (fid f) =
          Some (old\<lparr>last_seen := now, tier := tier f, summary := summary f, detail := detail f\<rparr>)
        \<and> new_count (merge_feature now f v) = new_count v
        \<and> map fst (existing (merge_feature now f v)) = map fst (existing v))"
proof -
  have step: "map_of (existing v) (fid f) = Some old \<longrightarrow>
        map_of (existing (merge_feature now f v)) (fid f) =
          Some (old\<lparr>last_seen := now, tier := tier f, summary := summary f, detail := detail f\<rparr>)
        \<and> new_count (merge_feature now f v) = new_count v
        \<and> map fst (existing (merge_feature now f v)) = map fst (existing v)"
  proof
    assume o: "map_of (existing v) (fid f) = Some old"
    then have inn: "fid f \<in> fst ` set (existing v)"
      by (metis map_of_eq_None_iff option.distinct(1))
    from o have a: "map_of (existing (merge_feature now f v)) (fid f) = Some (rescan now f old)"
      by (simp add: map_of_merge_feature)
    from inn have b: "new_count (merge_feature now f v) = new_count v"
      by (simp add: merge_feature_alt)
    from inn have c: "map fst (existing (merge_feature now f v)) = map fst (existing v)"
      by (simp add: merge_feature_keys)
    from a b c show "map_of (existing (merge_feature now f v)) (fid f) =
          Some (old\<lparr>last_seen := now, tier := tier f, summary := summary f, detail := detail f\<rparr>)
        \<and> new_count (merge_feature now f v) = new_count v
        \<and> map fst (existing (merge_feature now f v)) = map fst (existing v)"
      by (simp add: rescan_def)
  qed
  have main: "k \<in> fid ` set fresh \<and> map_of (features st) k = Some old
      \<and> g = last (filter (\<lambda>g. fid g = k) fresh)
      \<and> f' = old\<lparr>last_seen := now, tier := tier g, summary := summary g, detail := detail g\<rparr>
    \<longrightarrow>
      map_of (features (fst (merge_scan now st fresh src))) k = Some f'
      \<and> g \<in> set fresh \<and> fid g = k
      \<and> status f' = status old \<and> first_seen f' = first_seen old \<and> name f' = name old
      \<and> category f' = category old \<and> detector f' = detector old
      \<and> screen_id f' = screen_id old \<and> fid f' = fid old
      \<and> (status old = ''implemented'' \<longrightarrow> status f' = ''implemented'')"
  proof (intro impI, elim conjE)
    assume k: "k \<in> fid ` set fresh" and old: "map_of (features st) k = Some old"
      and g: "g = last (filter (\<lambda>g. fid g = k) fresh)"
      and f': "f' = old\<lparr>last_seen := now, tier := tier g, summary := summary g,
                        detail := detail g\<rparr>"
    from k have ne: "filter (\<lambda>g. fid g = k) fresh \<noteq> []" by (auto simp: filter_empty_conv)
    then have "g \<in> set (filter (\<lambda>g. fid g = k) fresh)" unfolding g by (rule last_in_set)
    then have gin: "g \<in> set fresh" and gk: "fid g = k" by simp_all
    have r: "f' = rescan now g old" unfolding f' by (simp add: rescan_def)
    have lk: "map_of (features (fst (merge_scan now st fresh src))) k = Some f'"
      using merge_scan_present_lookup[OF k old, of now src] by (simp add: r g)
    have fr: "status f' = status old \<and> first_seen f' = first_seen old \<and> name f' = name old
      \<and> category f' = category old \<and> detector f' = detector old
      \<and> screen_id f' = screen_id old \<and> fid f' = fid old" unfolding f' by simp
    from lk gin gk fr
    show "map_of (features (fst (merge_scan now st fresh src))) k = Some f'
      \<and> g \<in> set fresh \<and> fid g = k
      \<and> status f' = status old \<and> first_seen f' = first_seen old \<and> name f' = name old
      \<and> category f' = category old \<and> detector f' = detector old
      \<and> screen_id f' = screen_id old \<and> fid f' = fid old
      \<and> (status old = ''implemented'' \<longrightarrow> status f' = ''implemented'')" by simp
  qed
  from main merge_scan_keys_prefix[of st now fresh src] step show ?thesis by (intro conjI)
qed

theorem merge_scan_update_in_place_witness:
  "map_of (features (fst (merge_scan ''2024-02-02T00:00:00+00:00'' ex_state
        [ex_home, ex_settings_rescanned] ''design.json''))) ''screen::s2::Settings''
     = Some (ex_settings\<lparr>last_seen := ''2024-02-02T00:00:00+00:00'', tier := 3,
               summary := ''Screen: Settings (mobile, T3)'',
               detail := JObj [(''platform'', JStr ''mobile'')]\<rparr>)
   \<and> status (ex_settings\<lparr>last_seen := ''2024-02-02T00:00:00+00:00'', tier := 3,
               summary := ''Screen: Settings (mobile, T3)'',
               detail := JObj [(''platform'', JStr ''mobile'')]\<rparr>) = ''implemented''"
proof -
  let ?f' = "ex_settings\<lparr>last_seen := ''2024-02-02T00:00:00+00:00'',
      tier := tier ex_settings_rescanned, summary := summary ex_settings_rescanned,
      detail := detail ex_settings_rescanned\<rparr>"
  note t = merge_scan_update_in_place[of "''screen::s2::Settings''"
      "[ex_home, ex_settings_rescanned]" ex_state ex_settings ex_settings_rescanned ?f'
      "''2024-02-02T00:00:00+00:00''" "''design.json''"
      "\<lparr>existing = features ex_state, current_ids = {}, new_count = 0\<rparr>" ex_home]
  have p: "''screen::s2::Settings'' \<in> fid ` set [ex_home, ex_settings_rescanned]
      \<and> map_of (features ex_state) ''screen::s2::Settings'' = Some ex_settings
      \<and> ex_settings_rescanned
          = last (filter (\<lambda>g. fid g = ''screen::s2::Settings'') [ex_home, ex_settings_rescanned])
      \<and> ?f' = ?f'"
    by (simp add: ex_defs ex_settings_rescanned_def)
  from t have i: "''screen::s2::Settings'' \<in> fid ` set [ex_home, ex_settings_rescanned]
      \<and> map_of (features ex_state) ''screen::s2::Settings'' = Some ex_settings
      \<and> ex_settings_rescanned
          = last (filter (\<lambda>g. fid g = ''screen::s2::Settings'') [ex_home, ex_settings_rescanned])
      \<and> ?f' = ?f'
    \<longrightarrow>
      map_of (features (fst (merge_scan ''2024-02-02T00:00:00+00:00'' ex_state
        [ex_home, ex_settings_rescanned] ''design.json''))) ''screen::s2::Settings'' = Some ?f'
      \<and> ex_settings_rescanned \<in> set [ex_home, ex_settings_rescanned]
      \<and> fid ex_settings_rescanned = ''screen::s2::Settings''
      \<and> status ?f' = status ex_settings \<and> first_seen ?f' = first_seen ex_settings
      \<and> name ?f' = name ex_settings
      \<and> category ?f' = category ex_settings \<and> detector ?f' = detector ex_settings
      \<and> screen_id ?f' = screen_id ex_settings \<and> fid ?f' = fid ex_settings
      \<and> (status ex_settings = ''implemented'' \<longrightarrow> status ?f' = ''implemented'')"
    by (elim conjE)
  have v: "?f' = ex_settings\<lparr>last_seen := ''2024-02-02T00:00:00+00:00'', tier := 3,
               summary := ''Screen: Settings (mobile, T3)'',
               detail := JObj [(''platform'', JStr ''mobile'')]\<rparr>"
    by (simp add: ex_settings_rescanned_def make_feature_def)
  have s: "status ex_settings = ''implemented''" by (simp add: ex_defs)
  from mp[OF i p] have "map_of (features (fst (merge_scan ''2024-02-02T00:00:00+00:00'' ex_state
        [ex_home, ex_settings_rescanned] ''design.json''))) ''screen::s2::Settings'' = Some ?f'"
    and "status ?f' = status ex_settings"
    by blast+
  with s show ?thesis unfolding v by simp
qed

subsection \<open>Rescanning the same ids\<close>

lemma status_view_map_entry:
  "(\<And>x. status (g x) = status x) \<Longrightarrow>
   status_view (AList.map_entry k g al) = status_view al"
  by (induction al) (auto simp: status_view_def)

lemma merge_feature_known_id:
  assumes "fid f \<in> fst ` set (existing v)"
  shows "new_count (merge_feature now f v) = new_count v"
    and "status_view (existing (merge_feature now f v)) = status_view (existing v)"
    and "fst ` set (existing (merge_feature now f v)) = fst ` set (existing v)"
proof -
  from assms show "new_count (merge_feature now f v) = new_count v"
    by (simp add: merge_feature_alt)
  from assms show "status_view (existing (merge_feature now f v)) = status_view (existing v)"
    by (simp add: merge_feature_alt status_view_map_entry rescan_status)
  from assms have "map fst (existing (merge_feature now f v)) = map fst (existing v)"
    by (simp add: merge_feature_keys)
  then have "set (map fst (existing (merge_feature now f v))) = set (map fst (existing v))"
    by simp
  then show "fst ` set (existing (merge_feature now f v)) = fst ` set (existing v)"
    by simp
qed

lemma merge_features_known_ids:
  "fid ` set fs \<subseteq> fst ` set (existing v) \<Longrightarrow>
   new_count (merge_features now fs v) = new_count v
   \<and> status_view (existing (merge_features now fs v)) = status_view (existing v)"
proof (induction fs arbitrary: v)
  case Nil
  then show ?case by simp
next
  case (Cons f fs)
  from Cons.prems have f: "fid f \<in> fst ` set (existing v)" by simp
  from Cons.prems merge_feature_known_id(3)[OF f, of now]
  have "fid ` set fs \<subseteq> fst ` set (existing (merge_feature now f v))" by simp
  from Cons.IH[OF this] merge_feature_known_id(1,2)[OF f, of now] show ?case by simp
qed

lemma status_view_mark_removed:
  "status_view (map (mark_removed ids) al) = map (mark_view ids) (status_view al)"
  by (induction al) (auto simp: status_view_def mark_removed_def mark_view_def)

lemma mark_view_idem: "map (mark_view ids) (map (mark_view ids) xs) = map (mark_view ids) xs"
  by (induction xs) (auto simp: mark_view_def)

lemma no_open_absent_after_mark:
  "filter (\<lambda>e. fst e \<notin> ids \<and> status (snd e) = ''open'') (map (mark_removed ids) al) = []"
  by (induction al) (auto simp: mark_removed_def)

lemma merge_scan_new_count:
  "diff_new (snd (merge_scan now st fresh src)) =
     new_count (merge_features now fresh
        \<lparr>existing = features st, current_ids = {}, new_count = 0\<rparr>)"
  by (simp add: merge_scan_diff)

lemma merge_scan_keys:
  "fst ` set (features (fst (merge_scan now st fresh src))) =
     fst ` set (features st) \<union> fid ` set fresh"
proof -
  have "set (map fst (features (fst (merge_scan now st fresh src)))) =
      fst ` set (existing (merge_features now fresh
        \<lparr>existing = features st, current_ids = {}, new_count = 0\<rparr>))"
    by (simp add: merge_scan_features map_comp_mark_removed)
  then show ?thesis by (simp add: merge_features_keys)
qed

lemma merge_scan_again:
  assumes ids: "fid ` set fresh' = fid ` set fresh"
  shows "diff_new (snd (merge_scan now' (fst (merge_scan now st fresh src)) fresh' src')) = 0"
    and "diff_removed (snd (merge_scan now' (fst (merge_scan now st fresh src)) fresh' src')) = 0"
    and "status_view (features (fst (merge_scan now' (fst (merge_scan now st fresh src))
            fresh' src')))
         = status_view (features (fst (merge_scan now st fresh src)))"
proof -
  let ?st1 = "fst (merge_scan now st fresh src)"
  let ?v0 = "\<lparr>existing = features st, current_ids = {}, new_count = 0\<rparr>"
  let ?v1 = "\<lparr>existing = features ?st1, current_ids = {}, new_count = 0\<rparr>"
  have sub: "fid ` set fresh' \<subseteq> fst ` set (existing ?v1)"
    using ids by (simp add: merge_scan_keys)
  note k = merge_features_known_ids[OF sub, of now']
  from k show "diff_new (snd (merge_scan now' ?st1 fresh' src')) = 0"
    by (simp add: merge_scan_new_count)
  have e1: "features ?st1 = map (mark_removed (fid ` set fresh)) (existing (merge_features now fresh ?v0))"
    by (rule merge_scan_features)
  have "filter (\<lambda>e. fst e \<notin> fid ` set fresh' \<and> status (snd e) = ''open'') (features ?st1) = []"
    unfolding ids e1 by (rule no_open_absent_after_mark)
  then show "diff_removed (snd (merge_scan now' ?st1 fresh' src')) = 0"
    by (simp only: merge_scan_removed_count list.size int_ops)
  have "status_view (features (fst (merge_scan now' ?st1 fresh' src')))
        = map (mark_view (fid ` set fresh)) (status_view (existing (merge_features now' fresh' ?v1)))"
    by (simp only: merge_scan_features status_view_mark_removed ids)
  also have "\<dots> = map (mark_view (fid ` set fresh)) (status_view (features ?st1))"
    using k by simp
  also have "\<dots> = status_view (features ?st1)"
    by (simp only: e1 status_view_mark_removed mark_view_idem)
  finally show "status_view (features (fst (merge_scan now' ?st1 fresh' src')))
         = status_view (features ?st1)" .
qed

text \<open>
  C4. For every state and fresh feature list, a second \<^verbatim>\<open>merge_scan\<close> with the same fresh
  list, run on the state the first one returned, reports \<^verbatim>\<open>new = 0\<close>, and the feature
  dictionary has the same ids in the same order with the same statuses as after the first
  run (so the status found under each id is the same). The same holds, with
  \<^verbatim>\<open>removed = 0\<close>, for any second list that has the same set of ids.
\<close>

theorem merge_scan_twice:
  "diff_new (snd (merge_scan now' (fst (merge_scan now st fresh src)) fresh src')) = 0
   \<and> status_view (features (fst (merge_scan now' (fst (merge_scan now st fresh src)) fresh src')))
       = status_view (features (fst (merge_scan now st fresh src)))
   \<and> map_option status
        (map_of (features (fst (merge_scan now' (fst (merge_scan now st fresh src)) fresh src'))) k)
       = map_option status (map_of (features (fst (merge_scan now st fresh src))) k)
   \<and> (fid ` set fresh' = fid ` set fresh \<longrightarrow>
        diff_new (snd (merge_scan now' (fst (merge_scan now st fresh src)) fresh' src')) = 0
        \<and> diff_removed (snd (merge_scan now' (fst (merge_scan now st fresh src)) fresh' src')) = 0
        \<and> status_view (features (fst (merge_scan now' (fst (merge_scan now st fresh src))
              fresh' src')))
            = status_view (features (fst (merge_scan now st fresh src))))"
proof -
  have mo: "map_option status (map_of al k) = map_of (status_view al) k" for al
    by (induction al) (auto simp: status_view_def)
  have a: "fid ` set fresh = fid ` set fresh" by simp
  note s = merge_scan_again[OF a, of now' now st src src']
  have lk: "map_option status
        (map_of (features (fst (merge_scan now' (fst (merge_scan now st fresh src)) fresh src'))) k)
       = map_option status (map_of (features (fst (merge_scan now st fresh src))) k)"
    by (simp only: mo s(3))
  have gen: "fid ` set fresh' = fid ` set fresh \<longrightarrow>
        diff_new (snd (merge_scan now' (fst (merge_scan now st fresh src)) fresh' src')) = 0
        \<and> diff_removed (snd (merge_scan now' (fst (merge_scan now st fresh src)) fresh' src')) = 0
        \<and> status_view (features (fst (merge_scan now' (fst (merge_scan now st fresh src))
              fresh' src')))
            = status_view (features (fst (merge_scan now st fresh src)))"
  proof
    assume h: "fid ` set fresh' = fid ` set fresh"
    note g = merge_scan_again[OF h, of now' now st src src']
    from g(1) g(2) g(3)
    show "diff_new (snd (merge_scan now' (fst (merge_scan now st fresh src)) fresh' src')) = 0
        \<and> diff_removed (snd (merge_scan now' (fst (merge_scan now st fresh src)) fresh' src')) = 0
        \<and> status_view (features (fst (merge_scan now' (fst (merge_scan now st fresh src))
              fresh' src')))
            = status_view (features (fst (merge_scan now st fresh src)))"
      by (intro conjI)
  qed
  from s(1) s(3) lk gen show ?thesis by (intro conjI)
qed


theorem merge_scan_twice_witness:
  "diff_new (snd (merge_scan ''2024-02-02T00:00:00+00:00'' ex_state [ex_home, ex_scan]
      ''design.json'')) = 1
   \<and> diff_new (snd (merge_scan ''2024-03-03T00:00:00+00:00''
        (fst (merge_scan ''2024-02-02T00:00:00+00:00'' ex_state [ex_home, ex_scan]
           ''design.json''))
        [ex_home, ex_scan] ''design.json'')) = 0
   \<and> status_view (features (fst (merge_scan ''2024-03-03T00:00:00+00:00''
        (fst (merge_scan ''2024-02-02T00:00:00+00:00'' ex_state [ex_home, ex_scan]
           ''design.json''))
        [ex_home, ex_scan] ''design.json'')))
     = [(''screen::s1::Home'', ''open''), (''form::s1::Login'', ''removed_from_design''),
        (''screen::s2::Settings'', ''implemented''), (''screen::s3::Scan'', ''open'')]"
proof -
  note t = merge_scan_twice[of "''2024-03-03T00:00:00+00:00''" "''2024-02-02T00:00:00+00:00''"
      ex_state "[ex_home, ex_scan]" "''design.json''" "''design.json''" "''screen::s1::Home''"
      "[ex_home, ex_scan]"]
  from t have a: "diff_new (snd (merge_scan ''2024-03-03T00:00:00+00:00''
        (fst (merge_scan ''2024-02-02T00:00:00+00:00'' ex_state [ex_home, ex_scan]
           ''design.json''))
        [ex_home, ex_scan] ''design.json'')) = 0"
    by (elim conjE)
  from t have b: "status_view (features (fst (merge_scan ''2024-03-03T00:00:00+00:00''
        (fst (merge_scan ''2024-02-02T00:00:00+00:00'' ex_state [ex_home, ex_scan]
           ''design.json''))
        [ex_home, ex_scan] ''design.json'')))
      = status_view (features (fst (merge_scan ''2024-02-02T00:00:00+00:00'' ex_state
           [ex_home, ex_scan] ''design.json'')))"
    by (elim conjE)
  have c: "status_view (features (fst (merge_scan ''2024-02-02T00:00:00+00:00'' ex_state
           [ex_home, ex_scan] ''design.json'')))
      = [(''screen::s1::Home'', ''open''), (''form::s1::Login'', ''removed_from_design''),
         (''screen::s2::Settings'', ''implemented''), (''screen::s3::Scan'', ''open'')]"
    by (simp add: merge_scan_features merge_feature_def mark_removed_def status_view_def
        ex_defs ex_scan_def)
  have d: "diff_new (snd (merge_scan ''2024-02-02T00:00:00+00:00'' ex_state [ex_home, ex_scan]
      ''design.json'')) = 1"
    by (simp add: merge_scan_new_count merge_feature_def ex_defs ex_scan_def)
  from a b c d show ?thesis by simp
qed

section \<open>Theorems: tree parsing\<close>




lemma parse_ex_tree:
  "parse_node ex_tree =
     PenNode (JStr ''root'') (JStr ''frame'') (JStr [])
       [PenNode (JStr []) (JStr ''frame'') (JStr ''Settings'') [] [(''width'', JInt 390)]
          (JBool False),
        PenNode (JStr ''t1'') (JStr ''text'') (JStr []) [] [(''content'', JStr ''Hello'')]
          (JBool False)]
       [(''theme'', JStr ''dark'')] (JBool False)"
  by (simp add: ex_tree_def parse_node.simps dict_get_def skip_keys_def)


section \<open>Theorems: slugs\<close>

lemma ord_hyphen: "py_ord CHR ''-'' = 45"
  by (simp add: py_ord_def)

lemma ord_underscore: "py_ord CHR ''_'' = 95"
  by (simp add: py_ord_def)

lemma slug_char_facts:
  assumes "slug_char c"
  shows "\<not> is_upper c" and "\<not> is_space c" and "\<not> space_or_underscore c" and "slug_keep c"
    and "lower_char c = c"
proof -
  from assms have r: "(97 \<le> py_ord c \<and> py_ord c \<le> 122) \<or> (48 \<le> py_ord c \<and> py_ord c \<le> 57)
      \<or> py_ord c = 45"
    by (auto simp: slug_char_def is_az_def is_digit_def is_hyphen_def ord_hyphen)
  then show up: "\<not> is_upper c" by (auto simp: is_upper_def)
  from r show sp: "\<not> is_space c" by (auto simp: is_space_def)
  from r have "c \<noteq> CHR ''_''" using ord_underscore by auto
  with sp show "\<not> space_or_underscore c" by (simp add: space_or_underscore_def)
  from assms show "slug_keep c" by (auto simp: slug_keep_def slug_char_def)
  from up show "lower_char c = c" by (simp add: lower_char_def)
qed

lemma keep_not_space_is_slug_char:
  "slug_keep c \<Longrightarrow> \<not> space_or_underscore c \<Longrightarrow> slug_char c"
  by (auto simp: slug_keep_def slug_char_def space_or_underscore_def)

subsection \<open>Replacing runs\<close>

lemma set_sub_runs: "set (sub_runs P r s) \<subseteq> {c \<in> set s. \<not> P c} \<union> set r"
proof (induction P r s rule: sub_runs.induct)
  case (1 P r)
  then show ?case by simp
next
  case (2 P r c cs)
  have "set (dropWhile P cs) \<subseteq> set cs" by (auto dest: set_dropWhileD)
  with 2 show ?case by (auto split: if_splits)
qed

lemma sub_runs_id: "(\<forall>c \<in> set s. \<not> P c) \<Longrightarrow> sub_runs P r s = s"
  by (induction s) auto

lemma sub_runs_head:
  "s = [] \<or> \<not> P (hd s) \<Longrightarrow> sub_runs P r s = [] \<or> \<not> P (hd (sub_runs P r s))"
  by (cases s) auto

lemma dropWhile_head: "dropWhile P s = [] \<or> \<not> P (hd (dropWhile P s))"
  by (metis hd_dropWhile)

lemma no_double_sub_runs:
  "\<not> sublist [CHR ''-'', CHR ''-''] (sub_runs is_hyphen ''-'' s)"
proof (induction is_hyphen "''-''" s rule: sub_runs.induct)
  case 1
  then show ?case by simp
next
  case (2 c cs)
  show ?case
  proof (cases "is_hyphen c")
    case True
    let ?t = "sub_runs is_hyphen ''-'' (dropWhile is_hyphen cs)"
    from 2(1)[OF True] have ih: "\<not> sublist [CHR ''-'', CHR ''-''] ?t" .
    from sub_runs_head[OF dropWhile_head, where P = is_hyphen and r = "''-''" and s1 = cs]
    have hd: "?t = [] \<or> \<not> is_hyphen (hd ?t)" .
    have "\<not> sublist [CHR ''-'', CHR ''-''] (CHR ''-'' # ?t)"
    proof
      assume "sublist [CHR ''-'', CHR ''-''] (CHR ''-'' # ?t)"
      then have "prefix [CHR ''-'', CHR ''-''] (CHR ''-'' # ?t) \<or> sublist [CHR ''-'', CHR ''-''] ?t"
        by (simp add: sublist_Cons_right)
      with ih have "prefix [CHR ''-''] ?t" by simp
      then obtain u where "?t = CHR ''-'' # u" by (auto simp: prefix_def)
      with hd show False by (simp add: is_hyphen_def)
    qed
    with True show ?thesis by simp
  next
    case False
    from 2(2)[OF False] have ih: "\<not> sublist [CHR ''-'', CHR ''-''] (sub_runs is_hyphen ''-'' cs)" .
    have "\<not> sublist [CHR ''-'', CHR ''-''] (c # sub_runs is_hyphen ''-'' cs)"
    proof
      assume "sublist [CHR ''-'', CHR ''-''] (c # sub_runs is_hyphen ''-'' cs)"
      then have "prefix [CHR ''-'', CHR ''-''] (c # sub_runs is_hyphen ''-'' cs)
          \<or> sublist [CHR ''-'', CHR ''-''] (sub_runs is_hyphen ''-'' cs)"
        by (simp add: sublist_Cons_right)
      with ih have "c = CHR ''-''" by simp
      with False show False by (simp add: is_hyphen_def)
    qed
    with False show ?thesis by simp
  qed
qed

lemma sub_runs_hyphen_id:
  "\<not> sublist [CHR ''-'', CHR ''-''] s \<Longrightarrow> sub_runs is_hyphen ''-'' s = s"
proof (induction s)
  case Nil
  then show ?case by simp
next
  case (Cons c cs)
  from Cons.prems have tl: "\<not> sublist [CHR ''-'', CHR ''-''] cs"
    by (simp add: sublist_Cons_right)
  show ?case
  proof (cases "is_hyphen c")
    case True
    have "dropWhile is_hyphen cs = cs"
    proof (cases cs)
      case Nil
      then show ?thesis by simp
    next
      case (Cons d ds)
      with Cons.prems True have "d \<noteq> CHR ''-''"
        by (auto simp: sublist_Cons_right is_hyphen_def)
      with Cons show ?thesis by (simp add: is_hyphen_def)
    qed
    moreover from True have "c = CHR ''-''" by (simp add: is_hyphen_def)
    ultimately show ?thesis using True Cons.IH[OF tl] by simp
  next
    case False
    with Cons.IH[OF tl] show ?thesis by simp
  qed
qed

subsection \<open>Stripping\<close>

lemma strip_chars_sublist: "sublist (strip_chars P s) s"
proof -
  have "suffix (dropWhile P (rev (dropWhile P s))) (rev (dropWhile P s))"
    by (rule suffix_dropWhile)
  then have "prefix (strip_chars P s) (dropWhile P s)"
    by (simp add: strip_chars_def suffix_to_prefix)
  moreover have "suffix (dropWhile P s) s" by (rule suffix_dropWhile)
  ultimately show ?thesis
    by (meson prefix_imp_sublist suffix_imp_sublist sublist_order.order_trans)
qed

lemma set_strip_chars: "set (strip_chars P s) \<subseteq> set s"
  using strip_chars_sublist[of P s] by (auto dest: set_mono_sublist)

lemma strip_chars_ends:
  "strip_chars P s = [] \<or> (\<not> P (hd (strip_chars P s)) \<and> \<not> P (last (strip_chars P s)))"
proof (cases "strip_chars P s = []")
  case True
  then show ?thesis by simp
next
  case False
  let ?d = "dropWhile P s"
  let ?e = "dropWhile P (rev ?d)"
  from False have ne: "?e \<noteq> []" by (simp add: strip_chars_def)
  then have l: "\<not> P (hd ?e)" by (metis hd_dropWhile)
  have last: "last (strip_chars P s) = hd ?e"
    using ne by (simp add: strip_chars_def last_rev)
  from ne have dne: "?d \<noteq> []" by (cases "?d = []") simp_all
  then have hd_d: "\<not> P (hd ?d)" by (metis hd_dropWhile)
  have "prefix (rev ?e) ?d"
    using suffix_dropWhile[of P "rev ?d"] by (simp add: suffix_to_prefix)
  with ne have "hd (rev ?e) = hd ?d"
    by (metis Nil_is_rev_conv hd_append2 prefix_def)
  with hd_d have "\<not> P (hd (strip_chars P s))" by (simp add: strip_chars_def)
  with l last show ?thesis by simp
qed

lemma dropWhile_hd_id:
  "xs = [] \<or> \<not> P (hd xs) \<Longrightarrow> dropWhile P xs = xs"
  by (cases xs) auto

lemma strip_chars_id:
  "s = [] \<or> (\<not> P (hd s) \<and> \<not> P (last s)) \<Longrightarrow> strip_chars P s = s"
proof (cases s)
  case Nil
  then show ?thesis by (simp add: strip_chars_def)
next
  case (Cons a as)
  assume "s = [] \<or> (\<not> P (hd s) \<and> \<not> P (last s))"
  with Cons have h: "\<not> P a" and l: "\<not> P (last s)" by simp_all
  from h Cons have d: "dropWhile P s = s" by simp
  from Cons have "rev s \<noteq> []" by simp
  moreover from Cons have "hd (rev s) = last s" by (simp add: hd_rev)
  ultimately have "dropWhile P (rev s) = rev s" using l
    by (intro dropWhile_hd_id) simp
  with d show ?thesis by (simp add: strip_chars_def)
qed

subsection \<open>Slugs\<close>

lemma slugify_chars: "c \<in> set (slugify name') \<Longrightarrow> slug_char c"
proof -
  let ?f = "filter slug_keep (strip (lower name'))"
  let ?t = "sub_runs space_or_underscore ''-'' ?f"
  let ?u = "sub_runs is_hyphen ''-'' ?t"
  assume "c \<in> set (slugify name')"
  then have "c \<in> set (strip_chars is_hyphen ?u)" by (simp add: slugify_def Let_def)
  with set_strip_chars[of is_hyphen ?u] have "c \<in> set ?u" by auto
  with set_sub_runs[of is_hyphen "''-''" ?t] have "c \<in> set ?t \<or> c = CHR ''-''" by auto
  then show "slug_char c"
  proof
    assume "c \<in> set ?t"
    with set_sub_runs[of space_or_underscore "''-''" ?f]
    have "(c \<in> set ?f \<and> \<not> space_or_underscore c) \<or> c = CHR ''-''" by auto
    then show ?thesis
    proof
      assume "c \<in> set ?f \<and> \<not> space_or_underscore c"
      then have "slug_keep c" and "\<not> space_or_underscore c" by simp_all
      then show ?thesis by (rule keep_not_space_is_slug_char)
    next
      assume "c = CHR ''-''"
      then show ?thesis by (simp add: slug_char_def is_hyphen_def)
    qed
  next
    assume "c = CHR ''-''"
    then show ?thesis by (simp add: slug_char_def is_hyphen_def)
  qed
qed

lemma slugify_no_double: "\<not> sublist [CHR ''-'', CHR ''-''] (slugify name')"
proof
  let ?t = "sub_runs space_or_underscore ''-'' (filter slug_keep (strip (lower name')))"
  let ?u = "sub_runs is_hyphen ''-'' ?t"
  assume "sublist [CHR ''-'', CHR ''-''] (slugify name')"
  then have "sublist [CHR ''-'', CHR ''-''] (strip_chars is_hyphen ?u)"
    by (simp add: slugify_def Let_def)
  from this strip_chars_sublist[of is_hyphen ?u] have "sublist [CHR ''-'', CHR ''-''] ?u"
    by (rule sublist_order.order_trans)
  with no_double_sub_runs[of ?t] show False by simp
qed

lemma slugify_ends:
  "slugify name' = [] \<or> (\<not> is_hyphen (hd (slugify name')) \<and> \<not> is_hyphen (last (slugify name')))"
  unfolding slugify_def Let_def by (rule strip_chars_ends)

lemma slugify_fixed:
  assumes chars: "\<forall>c \<in> set s. slug_char c"
    and nodouble: "\<not> sublist [CHR ''-'', CHR ''-''] s"
    and ends: "s = [] \<or> (\<not> is_hyphen (hd s) \<and> \<not> is_hyphen (last s))"
  shows "slugify s = s"
proof -
  from chars have 1: "lower s = s"
    by (simp add: lower_def slug_char_facts(5) map_idI)
  have "s = [] \<or> (\<not> is_space (hd s) \<and> \<not> is_space (last s))"
  proof (cases "s = []")
    case True
    then show ?thesis by simp
  next
    case False
    then have "hd s \<in> set s" and "last s \<in> set s" by simp_all
    with chars show ?thesis by (simp add: slug_char_facts(2))
  qed
  then have 2: "strip s = s" unfolding strip_def by (rule strip_chars_id)
  from chars have 3: "filter slug_keep s = s"
    by (simp add: slug_char_facts(4))
  from chars have 4: "sub_runs space_or_underscore ''-'' s = s"
    by (intro sub_runs_id) (simp add: slug_char_facts(3))
  from nodouble have 5: "sub_runs is_hyphen ''-'' s = s" by (rule sub_runs_hyphen_id)
  from ends have 6: "strip_chars is_hyphen s = s" by (rule strip_chars_id)
  show ?thesis by (simp add: slugify_def Let_def 1 2 3 4 5 6)
qed

text \<open>
  C9. For every input string, \<open>slugify\<close> is idempotent, and its output has only the
  lowercase letters a to z, the digits and the hyphen, never two hyphens in a row, and
  no hyphen at either end.
\<close>

theorem slugify_idempotent_shape:
  "slugify (slugify name') = slugify name'
   \<and> (\<forall>c \<in> set (slugify name'). is_az c \<or> is_digit c \<or> c = CHR ''-'')
   \<and> \<not> sublist ''--'' (slugify name')
   \<and> (slugify name' = [] \<or> (hd (slugify name') \<noteq> CHR ''-'' \<and> last (slugify name') \<noteq> CHR ''-''))"
proof (intro conjI)
  have chars: "\<forall>c \<in> set (slugify name'). slug_char c"
    by (simp add: slugify_chars)
  from chars slugify_no_double[of name'] slugify_ends[of name']
  show "slugify (slugify name') = slugify name'" by (rule slugify_fixed)
  from chars show "\<forall>c \<in> set (slugify name'). is_az c \<or> is_digit c \<or> c = CHR ''-''"
    by (simp add: slug_char_def is_hyphen_def)
  from slugify_no_double[of name'] show "\<not> sublist ''--'' (slugify name')" by simp
  from slugify_ends[of name']
  show "slugify name' = [] \<or> (hd (slugify name') \<noteq> CHR ''-'' \<and> last (slugify name') \<noteq> CHR ''-'')"
    by (simp add: is_hyphen_def)
qed

theorem slugify_idempotent_shape_witness:
  "slugify ''  Food  Log_v2 -- (Beta)! '' = ''food-logv2-beta''
   \<and> slugify ''food-logv2-beta'' = ''food-logv2-beta''
   \<and> \<not> sublist ''--'' ''food-logv2-beta''"
proof -
  have e: "slugify ''  Food  Log_v2 -- (Beta)! '' = ''food-logv2-beta''" by code_simp
  note t = slugify_idempotent_shape[of "''  Food  Log_v2 -- (Beta)! ''"]
  from t have "slugify (slugify ''  Food  Log_v2 -- (Beta)! '') = slugify ''  Food  Log_v2 -- (Beta)! ''"
    by (elim conjE)
  moreover from t have "\<not> sublist ''--'' (slugify ''  Food  Log_v2 -- (Beta)! '')"
    by (elim conjE)
  ultimately show ?thesis by (simp only: e simp_thms)
qed

section \<open>Theorems: stub pages\<close>

lemma lower_contains:
  "py_in p (lower s) \<longleftrightarrow> (\<exists>ps m ss. s = ps @ m @ ss \<and> lower m = p)"
proof
  assume "py_in p (lower s)"
  then obtain ps' ss' where "map lower_char s = ps' @ p @ ss'"
    by (auto simp: py_in_iff lower_def)
  from this[unfolded map_eq_append_conv]
  obtain ps r where s: "s = ps @ r" and r: "p @ ss' = map lower_char r" by blast
  from r[symmetric, unfolded map_eq_append_conv]
  obtain m ss where "r = m @ ss" and "p = map lower_char m" by blast
  with s show "\<exists>ps m ss. s = ps @ m @ ss \<and> lower m = p"
    by (auto simp: lower_def)
next
  assume "\<exists>ps m ss. s = ps @ m @ ss \<and> lower m = p"
  then obtain ps m ss where "s = ps @ m @ ss" and "lower m = p" by blast
  then have "lower s = lower ps @ p @ lower ss" by (auto simp: lower_def)
  then show "py_in p (lower s)" unfolding py_in_iff by blast
qed

text \<open>
  C6 as stated fails: the line count is taken over every line of the content between its
  first and last non-blank character, blank lines included, and the phrase is looked for
  in the lower-cased content. The sparse page has two lines that are not blank and is an
  implemented page; the page that says ``Coming Soon'' with capitals is a stub.
\<close>

theorem is_stub_page_spec_counterexample:
  "spec_is_stub ex_sparse_page \<and> \<not> is_stub_page (Some ex_sparse_page)
   \<and> is_stub_page (Some ex_soon_page) \<and> \<not> spec_is_stub ex_soon_page"
proof -
  have "spec_is_stub ex_sparse_page" by code_simp
  moreover have "\<not> is_stub_page (Some ex_sparse_page)" by code_simp
  moreover have "is_stub_page (Some ex_soon_page)" by code_simp
  moreover have "\<not> spec_is_stub ex_soon_page" by code_simp
  ultimately show ?thesis by (intro conjI)
qed

text \<open>
  C6, amended. A page that cannot be read is a stub. A page that is read is a stub
  exactly when its content, with the white space at both ends removed, has fewer than 10
  lines (blank lines in between are counted), or the content has the phrase ``coming
  soon'' in any mix of upper and lower case and that number of lines is below 30;
  otherwise the page counts as implemented.
\<close>

theorem is_stub_page_decision:
  "is_stub_page None
   \<and> (is_stub_page (Some content) \<longleftrightarrow>
        length (splitlines (strip content)) < 10
        \<or> ((\<exists>ps m ss. content = ps @ m @ ss \<and> lower m = ''coming soon'')
             \<and> length (splitlines (strip content)) < 30))"
proof
  show "is_stub_page None" by (simp add: is_stub_page_def)
  have "(\<exists>ps m ss. content = ps @ m @ ss \<and> lower m = ''coming soon'')
      \<longleftrightarrow> py_in ''coming soon'' (lower content)"
    by (simp only: lower_contains)
  then show "is_stub_page (Some content) \<longleftrightarrow>
        length (splitlines (strip content)) < 10
        \<or> ((\<exists>ps m ss. content = ps @ m @ ss \<and> lower m = ''coming soon'')
             \<and> length (splitlines (strip content)) < 30)"
    by (simp only: is_stub_page_def Let_def option.case) auto
qed

theorem is_stub_page_decision_witness:
  "is_stub_page (Some ex_soon_page) \<and> length (splitlines (strip ex_soon_page)) = 10
   \<and> lower (take 11 (drop 3 ex_soon_page)) = ''coming soon''"
proof -
  have n: "length (splitlines (strip ex_soon_page)) = 10" by code_simp
  have m: "lower (take 11 (drop 3 ex_soon_page)) = ''coming soon''" by code_simp
  have "ex_soon_page = take 3 ex_soon_page @ take 11 (drop 3 ex_soon_page) @ drop 14 ex_soon_page"
    by code_simp
  with m have "\<exists>ps m ss. ex_soon_page = ps @ m @ ss \<and> lower m = ''coming soon''" by blast
  with n is_stub_page_decision[of ex_soon_page] have "is_stub_page (Some ex_soon_page)"
    by simp
  with n m show ?thesis by (intro conjI)
qed

end
